theory Spec2Isabelle
  imports Main "HOL-Library.AList"
begin

section \<open>The APIService request client of src/api.js\<close>

text \<open>
  A shallow embedding of the class \<^verbatim>\<open>APIService\<close>. The object's fields are the record
  \<open>client\<close>; what the JavaScript runtime contributes (the clock \<^verbatim>\<open>Date.now()\<close>, the
  queue of pending \<^verbatim>\<open>setTimeout\<close> callbacks, \<^verbatim>\<open>fetch\<close>, \<^verbatim>\<open>console.warn\<close>) is the record
  \<open>env\<close>. Every method takes both and returns both. A \<^verbatim>\<open>throw\<close> is the left injection of a
  sum, a normal return the right one.

  Numbers are integers (timestamps and durations in milliseconds). \<^verbatim>\<open>request\<close> is
  asynchronous. It looks up the cache before its first \<^verbatim>\<open>await\<close> of an attempt and stores the
  response after the last. While it awaits the transport or a backoff delay it is suspended:
  the clock moves on, expiry callbacks that fall due are run, and other code may call the
  synchronous methods \<^verbatim>\<open>clearCache\<close> and \<^verbatim>\<open>clearAllCache\<close>. Which of these calls fall into
  which suspension, and when, is given by the runtime. An attempt neither reads nor writes
  the cache, so a call made at another \<^verbatim>\<open>await\<close> of the attempt (an interceptor, a body
  reader) is written as a call made when the wait for the transport begins or ends. A call
  made while \<^verbatim>\<open>request\<close> awaits the refresh hook, before it has looked at anything, is
  written as a call made just before the request. Two requests do not overlap, and the setters are not called while a request is
  suspended. Interceptors and body readers are functions of their argument that return or
  throw and take no time. The abort timer of \<^verbatim>\<open>createAbortSignal\<close> acts on the transport
  only: whether a call is aborted is part of what the transport answers.
\<close>

subsection \<open>JavaScript values\<close>

type_synonym headers = "(string \<times> string) list"

text \<open>A parsed body. \<^verbatim>\<open>data.message\<close> is the only property the code reads; reading it
  from \<^verbatim>\<open>null\<close> raises a TypeError.\<close>

datatype payload = Null | Data (messageOf: "string option") (content: string)

text \<open>An \<^verbatim>\<open>Error\<close> object with the properties \<^verbatim>\<open>handleResponse\<close> attaches.
  \<open>None\<close> is a property that is absent.\<close>

record error =
  err_message :: string
  err_status :: "int option"
  err_data :: "payload option"
  err_headers :: "headers option"

definition newError :: "string \<Rightarrow> error" where
  "newError msg = \<lparr>err_message = msg, err_status = None, err_data = None, err_headers = None\<rparr>"

text \<open>The \<^verbatim>\<open>params\<close> object of a call is kept as the two strings the code derives from it:
  \<^verbatim>\<open>JSON.stringify(params)\<close> and \<^verbatim>\<open>new URLSearchParams(params).toString()\<close>.\<close>

record params =
  jsonString :: string
  queryString :: string

text \<open>The options of \<^verbatim>\<open>request(url, config)\<close>. \<open>cfg_data\<close> is \<^verbatim>\<open>JSON.stringify(config.data)\<close>
  of a truthy payload, \<open>None\<close> when the payload is missing or falsy.\<close>

record config =
  cfg_method :: "string option"
  cfg_headers :: headers
  cfg_data :: "string option"
  cfg_params :: "params option"
  cfg_cache :: "bool option"
  cfg_cacheTTL :: "int option"

text \<open>The descriptor handed to the request interceptors and then to \<^verbatim>\<open>fetch\<close>.
  \<open>req_signal\<close> is the timeout the abort signal was armed with.\<close>

record request =
  req_url :: string
  req_method :: string
  req_headers :: headers
  req_signal :: int
  req_body :: "string option"
  originalConfig :: config

text \<open>A \<^verbatim>\<open>Response\<close> as the code reads it: three properties, the headers (names in lower
  case, as a \<^verbatim>\<open>Headers\<close> object lists them) and the outcome of each body reader.\<close>

record response =
  res_ok :: bool
  res_status :: int
  res_statusText :: string
  res_headers :: headers
  res_json :: "error + payload"
  res_text :: "error + payload"
  res_blob :: "error + payload"

text \<open>The success envelope.\<close>

record envelope =
  status :: int
  statusText :: string
  headers :: headers
  data :: payload
  fromCache :: bool

subsection \<open>The client object and the runtime\<close>

record rateLimit =
  maxRequests :: int
  windowMs :: int

text \<open>The fields of the object. An interceptor returns a value of the kind it was given
  (descriptor, envelope or error) or throws. \<open>cache\<close> and \<open>cacheTimers\<close> are the two
  \<^verbatim>\<open>Map\<close>s, in insertion order; a timer is known by its handle.\<close>

record client =
  baseURL :: string
  timeout :: int
  maxRetries :: int
  retryDelay :: int
  cacheTTL :: int
  authToken :: "(string \<times> string) option"
  refreshToken :: "string option"
  tokenExpiryTime :: "int option"
  requestInterceptors :: "(request \<Rightarrow> error + request) list"
  responseInterceptors :: "(envelope \<Rightarrow> error + envelope) list"
  errorInterceptors :: "(error \<Rightarrow> error + error) list"
  cache :: "(string \<times> envelope) list"
  cacheTimers :: "(string \<times> nat) list"
  rateLimitConfig :: rateLimit
  requestTimestamps :: "int list"

datatype event =
    Fetch request
  | Delay int
  | RequestInterceptor nat
  | ResponseInterceptor nat
  | ErrorInterceptor nat
  | Warn

text \<open>A synchronous call that other code makes while a request is suspended.\<close>

datatype clearing = ClearKey string | ClearEverything

text \<open>The runtime. \<open>timers\<close> are the pending expiry callbacks \<open>(handle, due, key)\<close> set by
  \<^verbatim>\<open>setCache\<close>. \<open>fetch\<close> is the transport: given the number of calls made before and the
  descriptor, it says how long the call takes and whether the promise rejects or resolves.
  \<open>events\<close> records, in order, what a call did outside the object. \<open>suspensions\<close> counts
  the suspensions of requests so far, and \<open>meanwhile k\<close> are the calls other code makes
  during suspension number \<open>k\<close>, each with the milliseconds that pass before it since the
  call before (or since the suspension began).\<close>

record env =
  now :: int
  timers :: "(nat \<times> int \<times> string) list"
  nextTimer :: nat
  fetch :: "nat \<Rightarrow> request \<Rightarrow> nat \<times> (error + response)"
  fetchCount :: nat
  serialize :: "envelope \<Rightarrow> string"
  events :: "event list"
  suspensions :: nat
  meanwhile :: "nat \<Rightarrow> (nat \<times> clearing) list"

definition logEvent :: "event \<Rightarrow> env \<Rightarrow> env" where
  "logEvent ev e = e\<lparr>events := events e @ [ev]\<rparr>"

subsection \<open>String helpers\<close>

text \<open>Upper case, on the ASCII letters.\<close>

definition upperChar :: "char \<Rightarrow> char" where
  "upperChar ch =
     (case map_of (zip ''abcdefghijklmnopqrstuvwxyz'' ''ABCDEFGHIJKLMNOPQRSTUVWXYZ'') ch of
        Some u \<Rightarrow> u
      | None \<Rightarrow> ch)"

definition toUpperCase :: "string \<Rightarrow> string" where
  "toUpperCase s = map upperChar s"

definition startsWith :: "string \<Rightarrow> string \<Rightarrow> bool" where
  "startsWith s p = (take (length p) s = p)"

fun strIncludes :: "string \<Rightarrow> string \<Rightarrow> bool" where
  "strIncludes [] p = (p = [])"
| "strIncludes (x # xs) p = (startsWith (x # xs) p \<or> strIncludes xs p)"

fun digits :: "nat \<Rightarrow> string" where
  "digits n =
     (if n < 10 then [''0123456789'' ! n] else digits (n div 10) @ [''0123456789'' ! (n mod 10)])"

declare digits.simps [simp del]

definition showInt :: "int \<Rightarrow> string" where
  "showInt i = (if i < 0 then CHR ''-'' # digits (nat (- i)) else digits (nat i))"

text \<open>A number that may be \<^verbatim>\<open>NaN\<close> (\<open>None\<close>), as \<^verbatim>\<open>${...}\<close> prints it.\<close>

definition showNumber :: "int option \<Rightarrow> string" where
  "showNumber x = (case x of None \<Rightarrow> ''NaN'' | Some i \<Rightarrow> showInt i)"

subsection \<open>Construction and setters\<close>

record clientConfig =
  cc_baseURL :: "string option"
  cc_timeout :: "int option"
  cc_maxRetries :: "int option"
  cc_retryDelay :: "int option"
  cc_cacheTTL :: "int option"
  cc_authToken :: "(string \<times> string) option"
  cc_refreshToken :: "string option"
  cc_rateLimit :: "rateLimit option"

text \<open>\<^verbatim>\<open>x || d\<close> on a number: zero and a missing value give the default.\<close>

definition orNumber :: "int option \<Rightarrow> int \<Rightarrow> int" where
  "orNumber x d = (case x of None \<Rightarrow> d | Some v \<Rightarrow> if v = 0 then d else v)"

definition orString :: "string option \<Rightarrow> string option" where
  "orString x = (case x of None \<Rightarrow> None | Some v \<Rightarrow> if v = [] then None else Some v)"

definition constructor :: "clientConfig \<Rightarrow> client" where
  "constructor cc =
     \<lparr>baseURL = (case orString (cc_baseURL cc) of None \<Rightarrow> [] | Some b \<Rightarrow> b),
      timeout = orNumber (cc_timeout cc) 30000,
      maxRetries = orNumber (cc_maxRetries cc) 3,
      retryDelay = orNumber (cc_retryDelay cc) 1000,
      cacheTTL = orNumber (cc_cacheTTL cc) 300000,
      authToken = cc_authToken cc,
      refreshToken = orString (cc_refreshToken cc),
      tokenExpiryTime = None,
      requestInterceptors = [],
      responseInterceptors = [],
      errorInterceptors = [],
      cache = [],
      cacheTimers = [],
      rateLimitConfig =
        (case cc_rateLimit cc of None \<Rightarrow> \<lparr>maxRequests = 100, windowMs = 60000\<rparr> | Some r \<Rightarrow> r),
      requestTimestamps = []\<rparr>"

text \<open>\<^verbatim>\<open>setAuthToken(token, type = 'Bearer')\<close> and
  \<^verbatim>\<open>setRefreshToken(refreshToken, expiryTime = 3600000)\<close>: \<open>None\<close> is an argument left out.\<close>

definition setAuthToken :: "string \<Rightarrow> string option \<Rightarrow> client \<Rightarrow> client" where
  "setAuthToken token type c =
     c\<lparr>authToken := Some (token, case type of None \<Rightarrow> ''Bearer'' | Some t \<Rightarrow> t)\<rparr>"

definition setRefreshToken :: "string \<Rightarrow> int option \<Rightarrow> client \<Rightarrow> env \<Rightarrow> client" where
  "setRefreshToken token expiryTime c e =
     c\<lparr>refreshToken := Some token,
       tokenExpiryTime := Some (now e + (case expiryTime of None \<Rightarrow> 3600000 | Some t \<Rightarrow> t))\<rparr>"

definition isTokenExpired :: "client \<Rightarrow> env \<Rightarrow> bool" where
  "isTokenExpired c e =
     (case tokenExpiryTime c of
        None \<Rightarrow> False
      | Some t \<Rightarrow> if t = 0 then False else now e > t - 60000)"

definition addRequestInterceptor :: "(request \<Rightarrow> error + request) \<Rightarrow> client \<Rightarrow> client" where
  "addRequestInterceptor callback c = c\<lparr>requestInterceptors := requestInterceptors c @ [callback]\<rparr>"

definition addResponseInterceptor :: "(envelope \<Rightarrow> error + envelope) \<Rightarrow> client \<Rightarrow> client" where
  "addResponseInterceptor callback c =
     c\<lparr>responseInterceptors := responseInterceptors c @ [callback]\<rparr>"

definition addErrorInterceptor :: "(error \<Rightarrow> error + error) \<Rightarrow> client \<Rightarrow> client" where
  "addErrorInterceptor callback c = c\<lparr>errorInterceptors := errorInterceptors c @ [callback]\<rparr>"

subsection \<open>Interceptor chains\<close>

text \<open>The loop \<^verbatim>\<open>for (const f of fs) x = await f(x)\<close>: the interceptors run one after the
  other, each on the value the one before returned; the first that throws ends the loop.
  \<open>ev i\<close> is logged when the interceptor at position \<open>i\<close> is called.\<close>

fun chain :: "(nat \<Rightarrow> event) \<Rightarrow> nat \<Rightarrow> ('a \<Rightarrow> error + 'a) list \<Rightarrow> 'a \<Rightarrow> env \<Rightarrow> (error + 'a) \<times> env" where
  "chain ev i [] x e = (Inr x, e)"
| "chain ev i (f # fs) x e =
     (case f x of
        Inl err \<Rightarrow> (Inl err, logEvent (ev i) e)
      | Inr y \<Rightarrow> chain ev (Suc i) fs y (logEvent (ev i) e))"

definition executeRequestInterceptors :: "client \<Rightarrow> request \<Rightarrow> env \<Rightarrow> (error + request) \<times> env" where
  "executeRequestInterceptors c cfg e = chain RequestInterceptor 0 (requestInterceptors c) cfg e"

definition executeResponseInterceptors :: "client \<Rightarrow> envelope \<Rightarrow> env \<Rightarrow> (error + envelope) \<times> env" where
  "executeResponseInterceptors c r e = chain ResponseInterceptor 0 (responseInterceptors c) r e"

definition executeErrorInterceptors :: "client \<Rightarrow> error \<Rightarrow> env \<Rightarrow> (error + error) \<times> env" where
  "executeErrorInterceptors c err e = chain ErrorInterceptor 0 (errorInterceptors c) err e"

subsection \<open>Timers and the passing of time\<close>

text \<open>The host timer holds a delay of 1 to 2147483647 milliseconds (a signed 32-bit number);
  any other delay, a larger one too, counts as 1 millisecond. This is the rule of the
  Node.js timers.\<close>

definition timerDelay :: "int \<Rightarrow> int" where
  "timerDelay delay = (if delay < 1 \<or> 2147483647 < delay then 1 else delay)"

text \<open>\<^verbatim>\<open>setTimeout(callback, delay)\<close> for the expiry callback of a cache key: a fresh handle, due
  when the host timer has run down.\<close>

definition setTimeout :: "string \<Rightarrow> int \<Rightarrow> env \<Rightarrow> nat \<times> env" where
  "setTimeout key delay e =
     (nextTimer e,
      e\<lparr>timers := timers e @ [(nextTimer e, now e + timerDelay delay, key)],
        nextTimer := Suc (nextTimer e)\<rparr>)"

definition clearTimeout :: "nat \<Rightarrow> env \<Rightarrow> env" where
  "clearTimeout h e = e\<lparr>timers := filter (\<lambda>t. fst t \<noteq> h) (timers e)\<rparr>"

text \<open>The expiry callback of \<^verbatim>\<open>setCache\<close>:
  \<^verbatim>\<open>this.cache.delete(cacheKey); this.cacheTimers.delete(cacheKey)\<close>.\<close>

definition expire :: "client \<Rightarrow> nat \<times> int \<times> string \<Rightarrow> client" where
  "expire c t =
     c\<lparr>cache := AList.delete (snd (snd t)) (cache c),
       cacheTimers := AList.delete (snd (snd t)) (cacheTimers c)\<rparr>"

text \<open>The clock moves on by \<open>d\<close> milliseconds while the caller is suspended; every pending
  callback that is due by then runs and leaves the queue.\<close>

definition advance :: "int \<Rightarrow> client \<Rightarrow> env \<Rightarrow> client \<times> env" where
  "advance d c e =
     (let t = now e + (if d < 0 then 0 else d)
      in (foldl expire c (filter (\<lambda>t'. fst (snd t') \<le> t) (timers e)),
          e\<lparr>now := t, timers := filter (\<lambda>t'. \<not> fst (snd t') \<le> t) (timers e)\<rparr>))"

subsection \<open>Rate limiting\<close>

text \<open>\<^verbatim>\<open>Math.ceil(w / 1000)\<close>; \<open>None\<close> is \<^verbatim>\<open>NaN\<close>.\<close>

definition ceilSeconds :: "int option \<Rightarrow> int option" where
  "ceilSeconds w = map_option (\<lambda>x. - ((- x) div 1000)) w"

definition rateLimitError :: "int option \<Rightarrow> error" where
  "rateLimitError waitTime =
     newError (''Rate limit exceeded. Please wait '' @ showNumber (ceilSeconds waitTime) @ '' seconds.'')"

text \<open>The assignment to \<^verbatim>\<open>this.requestTimestamps\<close> happens before the \<^verbatim>\<open>throw\<close>, so the
  pruned client is returned in both cases. \<^verbatim>\<open>requestTimestamps[0]\<close> of an empty array is
  \<^verbatim>\<open>undefined\<close> and the wait time computed from it is \<^verbatim>\<open>NaN\<close>.\<close>

definition checkRateLimit :: "client \<Rightarrow> env \<Rightarrow> (error + unit) \<times> client" where
  "checkRateLimit c e =
     (let windowStart = now e - windowMs (rateLimitConfig c);
          c1 = c\<lparr>requestTimestamps :=
                 filter (\<lambda>timestamp. timestamp > windowStart) (requestTimestamps c)\<rparr>
      in if int (length (requestTimestamps c1)) \<ge> maxRequests (rateLimitConfig c1) then
           (let waitTime =
                  (case requestTimestamps c1 of
                     [] \<Rightarrow> None
                   | oldestRequest # _ \<Rightarrow>
                       Some (windowMs (rateLimitConfig c1) - (now e - oldestRequest)))
            in (Inl (rateLimitError waitTime), c1))
         else (Inr (), c1\<lparr>requestTimestamps := requestTimestamps c1 @ [now e]\<rparr>))"

subsection \<open>The cache\<close>

definition methodOf :: "config \<Rightarrow> string" where
  "methodOf cfg =
     toUpperCase (case cfg_method cfg of None \<Rightarrow> ''GET'' | Some m \<Rightarrow> if m = [] then ''GET'' else m)"

definition generateCacheKey :: "string \<Rightarrow> config \<Rightarrow> string" where
  "generateCacheKey url cfg =
     methodOf cfg @ '':'' @ url @ '':'' @
       (case cfg_params cfg of None \<Rightarrow> [] | Some p \<Rightarrow> jsonString p)"

definition getFromCache :: "client \<Rightarrow> string \<Rightarrow> envelope option" where
  "getFromCache c cacheKey =
     (case map_of (cache c) cacheKey of
        Some cachedData \<Rightarrow> Some (cachedData\<lparr>fromCache := True\<rparr>)
      | None \<Rightarrow> None)"

text \<open>\<open>ttl\<close> is the third argument as passed: \<open>None\<close> (\<^verbatim>\<open>undefined\<close>) takes the default
  \<^verbatim>\<open>this.cacheTTL\<close>.\<close>

definition setCache :: "string \<Rightarrow> envelope \<Rightarrow> int option \<Rightarrow> client \<Rightarrow> env \<Rightarrow> client \<times> env" where
  "setCache cacheKey r ttl c e =
     (let e1 = (case map_of (cacheTimers c) cacheKey of
                  Some timer \<Rightarrow> clearTimeout timer e
                | None \<Rightarrow> e);
          c1 = c\<lparr>cache := AList.update cacheKey r (cache c)\<rparr>;
          (timer, e2) = setTimeout cacheKey (case ttl of None \<Rightarrow> cacheTTL c | Some t \<Rightarrow> t) e1
      in (c1\<lparr>cacheTimers := AList.update cacheKey timer (cacheTimers c1)\<rparr>, e2))"

definition clearCache :: "string \<Rightarrow> client \<Rightarrow> env \<Rightarrow> client \<times> env" where
  "clearCache cacheKey c e =
     (let (c1, e1) =
            (case map_of (cacheTimers c) cacheKey of
               Some timer \<Rightarrow>
                 (c\<lparr>cacheTimers := AList.delete cacheKey (cacheTimers c)\<rparr>, clearTimeout timer e)
             | None \<Rightarrow> (c, e))
      in (c1\<lparr>cache := AList.delete cacheKey (cache c1)\<rparr>, e1))"

definition clearAllCache :: "client \<Rightarrow> env \<Rightarrow> client \<times> env" where
  "clearAllCache c e =
     (c\<lparr>cacheTimers := [], cache := []\<rparr>,
      foldl (\<lambda>e' timer. clearTimeout timer e') e (map snd (cacheTimers c)))"

subsection \<open>Suspension\<close>

text \<open>A call of other code.\<close>

definition interleave :: "clearing \<Rightarrow> client \<times> env \<Rightarrow> client \<times> env" where
  "interleave x s =
     (case x of
        ClearKey cacheKey \<Rightarrow> clearCache cacheKey (fst s) (snd s)
      | ClearEverything \<Rightarrow> clearAllCache (fst s) (snd s))"

text \<open>A request is suspended for \<open>d\<close> milliseconds. Other code makes its calls at their
  instants, at the latest when the suspension ends; before, between and after them the
  clock moves on.\<close>

fun during :: "(nat \<times> clearing) list \<Rightarrow> int \<Rightarrow> client \<times> env \<Rightarrow> client \<times> env" where
  "during [] d s = advance d (fst s) (snd s)"
| "during ((dt, x) # xs) d s =
     (let w = min (int dt) (if d < 0 then 0 else d)
      in during xs (d - w) (interleave x (advance w (fst s) (snd s))))"

definition suspend :: "int \<Rightarrow> client \<Rightarrow> env \<Rightarrow> client \<times> env" where
  "suspend d c e =
     during (meanwhile e (suspensions e)) d (c, e\<lparr>suspensions := Suc (suspensions e)\<rparr>)"

subsection \<open>Building the request and reading the response\<close>

text \<open>The result is the descriptor \<^verbatim>\<open>{url: fullUrl, ...fetchConfig, originalConfig: config}\<close>
  that \<^verbatim>\<open>performRequest\<close> assembles from what \<^verbatim>\<open>buildFetchConfig\<close> returns. Caller headers
  override the default content type, and the \<^verbatim>\<open>Authorization\<close> header is set last.\<close>

definition buildFetchConfig :: "client \<Rightarrow> string \<Rightarrow> config \<Rightarrow> request" where
  "buildFetchConfig c url cfg =
     (let method = methodOf cfg;
          headers0 = foldl (\<lambda>h kv. AList.update (fst kv) (snd kv) h)
                       [(''Content-Type'', ''application/json'')] (cfg_headers cfg);
          headers1 = (case authToken c of
                        Some (token, type) \<Rightarrow> AList.update ''Authorization'' (type @ '' '' @ token) headers0
                      | None \<Rightarrow> headers0);
          body = (if method \<noteq> ''GET'' then cfg_data cfg else None);
          url1 = (case cfg_params cfg of
                    Some p \<Rightarrow> url @ (if queryString p \<noteq> [] then ''?'' @ queryString p else [])
                  | None \<Rightarrow> url)
      in \<lparr>req_url = url1, req_method = method, req_headers = headers1,
          req_signal = timeout c, req_body = body, originalConfig = cfg\<rparr>)"

text \<open>The error of a response that is not \<^verbatim>\<open>ok\<close>. Reading \<^verbatim>\<open>data.message\<close> from \<^verbatim>\<open>null\<close>
  throws before the error is built (left); otherwise the error built is returned (right) and
  \<^verbatim>\<open>handleResponse\<close> throws it. An empty message is falsy and gives the default text.\<close>

definition httpError :: "response \<Rightarrow> payload \<Rightarrow> error + error" where
  "httpError res d =
     (case d of
        Null \<Rightarrow> Inl (newError ''Cannot read properties of null'')
      | Data m body \<Rightarrow>
          Inr \<lparr>err_message =
                 (case m of
                    Some msg \<Rightarrow> if msg \<noteq> [] then msg else ''HTTP Error: '' @ showInt (res_status res)
                  | None \<Rightarrow> ''HTTP Error: '' @ showInt (res_status res)),
               err_status = Some (res_status res),
               err_data = Some d,
               err_headers = Some (res_headers res)\<rparr>)"

definition handleResponse :: "response \<Rightarrow> error + envelope" where
  "handleResponse res =
     (let contentType = map_of (res_headers res) ''content-type'';
          isJson = (case contentType of None \<Rightarrow> False
                    | Some ct \<Rightarrow> ct \<noteq> [] \<and> strIncludes ct ''application/json'');
          isText = (case contentType of None \<Rightarrow> False
                    | Some ct \<Rightarrow> ct \<noteq> [] \<and> strIncludes ct ''text'')
      in case (if isJson then res_json res else if isText then res_text res else res_blob res) of
           Inl err \<Rightarrow> Inl err
         | Inr d \<Rightarrow>
             if \<not> res_ok res then
               (case httpError res d of Inl err \<Rightarrow> Inl err | Inr err \<Rightarrow> Inl err)
             else Inr \<lparr>status = res_status res, statusText = res_statusText res,
                       headers = res_headers res, data = d, fromCache = False\<rparr>)"

subsection \<open>One attempt, and the retry loop\<close>

text \<open>\<^verbatim>\<open>!error.status\<close> holds for a missing status and for the status \<open>0\<close>.\<close>

definition isRetryableError :: "error \<Rightarrow> bool" where
  "isRetryableError err =
     (case err_status err of
        None \<Rightarrow> True
      | Some s \<Rightarrow> if s = 0 then True else s \<ge> 500)"

definition performRequest :: "client \<Rightarrow> string \<Rightarrow> config \<Rightarrow> env \<Rightarrow> (error + envelope) \<times> client \<times> env" where
  "performRequest c url cfg e =
     (case executeRequestInterceptors c (buildFetchConfig c url cfg) e of
        (Inl err, e1) \<Rightarrow> (Inl err, c, e1)
      | (Inr interceptedConfig, e1) \<Rightarrow>
          (let (latency, outcome) = fetch e1 (fetchCount e1) interceptedConfig;
               e2 = (logEvent (Fetch interceptedConfig) e1)\<lparr>fetchCount := Suc (fetchCount e1)\<rparr>;
               (c3, e3) = suspend (int latency) c e2
           in case outcome of
                Inl err \<Rightarrow> (Inl err, c3, e3)
              | Inr res \<Rightarrow>
                  (case handleResponse res of
                     Inl err \<Rightarrow> (Inl err, c3, e3)
                   | Inr r \<Rightarrow>
                       (case executeResponseInterceptors c3 r e3 of
                          (result, e4) \<Rightarrow> (result, c3, e4)))))"

text \<open>\<^verbatim>\<open>await new Promise((resolve) => setTimeout(resolve, delay))\<close>: the delay is logged as
  it is passed, and the request is suspended for as long as the host timer runs.\<close>

definition sleep :: "int \<Rightarrow> client \<Rightarrow> env \<Rightarrow> client \<times> env" where
  "sleep delay c e = suspend (timerDelay delay) c (logEvent (Delay delay) e)"

text \<open>Time passing touches the cache and its timers and nothing else of the client.\<close>

definition onlyCache :: "client \<Rightarrow> client \<Rightarrow> bool" where
  "onlyCache c c' = (c' = c\<lparr>cache := cache c', cacheTimers := cacheTimers c'\<rparr>)"

lemma onlyCache_refl: "onlyCache c c"
  by (simp add: onlyCache_def)

lemma onlyCache_trans: "onlyCache c c' \<Longrightarrow> onlyCache c' c'' \<Longrightarrow> onlyCache c c''"
  by (cases c, cases c', cases c'') (simp add: onlyCache_def)

lemma onlyCache_expire: "onlyCache c (expire c t)"
  by (simp add: onlyCache_def expire_def)

lemma onlyCache_foldl_expire: "onlyCache c (foldl expire c ts)"
proof (induction ts arbitrary: c)
  case Nil
  show ?case by (simp add: onlyCache_refl)
next
  case (Cons t ts)
  have "onlyCache (expire c t) (foldl expire (expire c t) ts)" by (rule Cons.IH)
  with onlyCache_expire [of c t] have "onlyCache c (foldl expire (expire c t) ts)"
    by (rule onlyCache_trans)
  then show ?case by simp
qed

lemma onlyCache_advance: "advance d c e = (c', e') \<Longrightarrow> onlyCache c c'"
  using onlyCache_foldl_expire by (auto simp: advance_def Let_def)

lemma onlyCache_interleave: "onlyCache (fst s) (fst (interleave x s))"
  by (cases x)
    (simp_all add: interleave_def onlyCache_def clearCache_def clearAllCache_def split_beta
      split: option.split)

lemma onlyCache_during: "onlyCache (fst s) (fst (during xs d s))"
proof (induction xs d s rule: during.induct)
  case (1 d s)
  show ?case using onlyCache_advance [of d "fst s" "snd s"]
    by (cases "advance d (fst s) (snd s)") simp
next
  case (2 dt x xs d s)
  let ?w = "min (int dt) (if d < 0 then 0 else d)"
  let ?a = "advance ?w (fst s) (snd s)"
  have 1: "onlyCache (fst s) (fst ?a)"
    using onlyCache_advance [of ?w "fst s" "snd s"] by (cases ?a) simp
  have 2: "onlyCache (fst ?a) (fst (interleave x ?a))" by (rule onlyCache_interleave)
  have 3: "onlyCache (fst (interleave x ?a)) (fst (during xs (d - ?w) (interleave x ?a)))"
    using "2.IH" [OF refl] .
  from onlyCache_trans [OF onlyCache_trans [OF 1 2] 3] show ?case by (simp add: Let_def)
qed

text \<open>A suspension moves the clock on by its length, and touches the pending timers and
  nothing else of the runtime.\<close>

lemma interleave_env:
  "snd (interleave x s) = (snd s)\<lparr>timers := timers (snd (interleave x s))\<rparr>"
proof (cases x)
  case (ClearKey k)
  then show ?thesis
    by (simp add: interleave_def clearCache_def clearTimeout_def split_beta split: option.split)
next
  case ClearEverything
  have "\<And>e. foldl (\<lambda>e' timer. clearTimeout timer e') e hs =
      e\<lparr>timers := timers (foldl (\<lambda>e' timer. clearTimeout timer e') e hs)\<rparr>" for hs
  proof (induction hs)
    case Nil
    show ?case by simp
  next
    case (Cons h hs)
    from Cons [of "clearTimeout h e"] show ?case by (simp add: clearTimeout_def)
  qed
  with ClearEverything show ?thesis
    by (simp add: interleave_def clearAllCache_def)
qed

lemma interleave_fields:
  "now (snd (interleave x s)) = now (snd s)"
  "nextTimer (snd (interleave x s)) = nextTimer (snd s)"
  "fetch (snd (interleave x s)) = fetch (snd s)"
  "fetchCount (snd (interleave x s)) = fetchCount (snd s)"
  "serialize (snd (interleave x s)) = serialize (snd s)"
  "events (snd (interleave x s)) = events (snd s)"
  "suspensions (snd (interleave x s)) = suspensions (snd s)"
  "meanwhile (snd (interleave x s)) = meanwhile (snd s)"
  by (subst interleave_env, simp)+

lemma advance_fields:
  "now (snd (advance d c e)) = now e + (if d < 0 then 0 else d)"
  "nextTimer (snd (advance d c e)) = nextTimer e"
  "fetch (snd (advance d c e)) = fetch e"
  "fetchCount (snd (advance d c e)) = fetchCount e"
  "serialize (snd (advance d c e)) = serialize e"
  "events (snd (advance d c e)) = events e"
  "suspensions (snd (advance d c e)) = suspensions e"
  "meanwhile (snd (advance d c e)) = meanwhile e"
  by (simp_all add: advance_def Let_def)

lemma during_fields:
  "now (snd (during xs d s)) = now (snd s) + (if d < 0 then 0 else d) \<and>
   nextTimer (snd (during xs d s)) = nextTimer (snd s) \<and>
   fetch (snd (during xs d s)) = fetch (snd s) \<and>
   fetchCount (snd (during xs d s)) = fetchCount (snd s) \<and>
   serialize (snd (during xs d s)) = serialize (snd s) \<and>
   events (snd (during xs d s)) = events (snd s) \<and>
   suspensions (snd (during xs d s)) = suspensions (snd s) \<and>
   meanwhile (snd (during xs d s)) = meanwhile (snd s)"
proof (induction xs d s rule: during.induct)
  case (1 d s)
  show ?case by (simp add: advance_fields)
next
  case (2 dt x xs d s)
  define w where "w = min (int dt) (if d < 0 then 0 else d)"
  have w: "\<not> w < 0" "a + w + (if d - w < 0 then 0 else d - w) = a + (if d < 0 then 0 else d)" for a
    by (auto simp: w_def)
  have eq: "during ((dt, x) # xs) d s = during xs (d - w) (interleave x (advance w (fst s) (snd s)))"
    by (simp add: w_def Let_def)
  note ih = "2.IH" [OF refl, folded w_def]
  show ?case
    unfolding eq using ih w by (simp add: interleave_fields advance_fields)
qed

lemma suspend_fields:
  "now (snd (suspend d c e)) = now e + (if d < 0 then 0 else d)"
  "nextTimer (snd (suspend d c e)) = nextTimer e"
  "fetch (snd (suspend d c e)) = fetch e"
  "fetchCount (snd (suspend d c e)) = fetchCount e"
  "serialize (snd (suspend d c e)) = serialize e"
  "events (snd (suspend d c e)) = events e"
  "suspensions (snd (suspend d c e)) = Suc (suspensions e)"
  "meanwhile (snd (suspend d c e)) = meanwhile e"
  using during_fields [of "meanwhile e (suspensions e)" d "(c, e\<lparr>suspensions := Suc (suspensions e)\<rparr>)"]
  by (simp_all add: suspend_def)

lemma onlyCache_suspend: "suspend d c e = (c', e') \<Longrightarrow> onlyCache c c'"
  using onlyCache_during [of "(c, e\<lparr>suspensions := Suc (suspensions e)\<rparr>)"
      "meanwhile e (suspensions e)" d]
  by (simp add: suspend_def)

lemma onlyCache_sleep: "sleep d c e = (c', e') \<Longrightarrow> onlyCache c c'"
  unfolding sleep_def by (rule onlyCache_suspend)

lemma onlyCache_performRequest:
  assumes "performRequest c url cfg e = (r, c', e')"
  shows "onlyCache c c'"
proof (cases "executeRequestInterceptors c (buildFetchConfig c url cfg) e")
  case (Pair ri e1)
  show ?thesis
  proof (cases ri)
    case (Inl err)
    with Pair assms show ?thesis by (simp add: performRequest_def onlyCache_refl)
  next
    case (Inr ic)
    obtain c3 e3 where adv:
      "suspend (int (fst (fetch e1 (fetchCount e1) ic))) c
         ((logEvent (Fetch ic) e1)\<lparr>fetchCount := Suc (fetchCount e1)\<rparr>) = (c3, e3)"
      by fastforce
    have "c' = c3"
      using assms Pair Inr adv
      by (auto simp: performRequest_def Let_def split_beta split: sum.splits prod.splits)
    with onlyCache_suspend [OF adv] show ?thesis by simp
  qed
qed

lemma onlyCache_maxRetries: "onlyCache c c' \<Longrightarrow> maxRetries c' = maxRetries c"
  by (cases c, cases c') (simp add: onlyCache_def)

lemma retry_measure:
  assumes "(Inl err, y) = performRequest c url cfg e" and "(c1, e1) = y"
    and "(c2, e2) = sleep d c1 e1"
  shows "maxRetries c1 = maxRetries c \<and> maxRetries c2 = maxRetries c"
proof -
  have "performRequest c url cfg e = (Inl err, c1, e1)"
    using assms(1,2) by simp
  then have "maxRetries c1 = maxRetries c"
    using onlyCache_performRequest onlyCache_maxRetries by blast
  moreover have "maxRetries c2 = maxRetries c1"
    using assms(3) [symmetric] onlyCache_sleep onlyCache_maxRetries by blast
  ultimately show ?thesis by simp
qed

function retryRequest :: "client \<Rightarrow> string \<Rightarrow> config \<Rightarrow> nat \<Rightarrow> env \<Rightarrow> (error + envelope) \<times> client \<times> env" where
  "retryRequest c url cfg attempt e =
     (case performRequest c url cfg e of
        (Inr r, c1, e1) \<Rightarrow> (Inr r, c1, e1)
      | (Inl err, c1, e1) \<Rightarrow>
          if int attempt < maxRetries c1 \<and> isRetryableError err then
            (case sleep (retryDelay c1 * 2 ^ attempt) c1 e1 of
               (c2, e2) \<Rightarrow> retryRequest c2 url cfg (Suc attempt) e2)
          else (Inl err, c1, e1))"
  by pat_completeness auto
termination
  apply (relation "measure (\<lambda>(c, url, cfg, attempt, e). nat (maxRetries c - int attempt))")
   apply simp
  apply simp
  subgoal for c url cfg attempt e x y err c1 e1 c2 e2
    using retry_measure [of err y c url cfg e c1 e1 c2 e2] by simp
  done

declare retryRequest.simps [simp del]

subsection \<open>The main request method and its wrappers\<close>

text \<open>The default hook only prints a warning.\<close>

definition refreshAuthToken :: "client \<Rightarrow> env \<Rightarrow> client \<times> env" where
  "refreshAuthToken c e = (c, logEvent Warn e)"

text \<open>\<^verbatim>\<open>config.method?.toUpperCase() !== 'POST' && config.cache !== false\<close>.\<close>

definition cacheable :: "config \<Rightarrow> bool" where
  "cacheable cfg = (map_option toUpperCase (cfg_method cfg) \<noteq> Some ''POST'' \<and> cfg_cache cfg \<noteq> Some False)"

text \<open>The body of the \<^verbatim>\<open>try\<close> block of \<^verbatim>\<open>request\<close>.\<close>

definition requestTry :: "client \<Rightarrow> string \<Rightarrow> config \<Rightarrow> env \<Rightarrow> (error + envelope) \<times> client \<times> env" where
  "requestTry c url cfg e =
     (let (c1, e1) = (if isTokenExpired c e \<and> orString (refreshToken c) \<noteq> None
                      then refreshAuthToken c e else (c, e))
      in case checkRateLimit c1 e1 of
           (Inl err, c2) \<Rightarrow> (Inl err, c2, e1)
         | (Inr _, c2) \<Rightarrow>
             (let fullUrl = (if startsWith url ''http'' then url else baseURL c2 @ url);
                  cacheKey = generateCacheKey fullUrl cfg
              in case (if cacheable cfg then getFromCache c2 cacheKey else None) of
                   Some cachedResponse \<Rightarrow> (Inr cachedResponse, c2, e1)
                 | None \<Rightarrow>
                     (case retryRequest c2 fullUrl cfg 0 e1 of
                        (Inl err, c3, e3) \<Rightarrow> (Inl err, c3, e3)
                      | (Inr r, c3, e3) \<Rightarrow>
                          if cacheable cfg then
                            (case setCache cacheKey r (cfg_cacheTTL cfg) c3 e3 of
                               (c4, e4) \<Rightarrow> (Inr r, c4, e4))
                          else (Inr r, c3, e3))))"

text \<open>The \<^verbatim>\<open>catch\<close> block throws whatever the error interceptors return, and an interceptor
  that throws ends the chain with its own error.\<close>

definition request :: "client \<Rightarrow> string \<Rightarrow> config \<Rightarrow> env \<Rightarrow> (error + envelope) \<times> client \<times> env" where
  "request c url cfg e =
     (case requestTry c url cfg e of
        (Inr r, c1, e1) \<Rightarrow> (Inr r, c1, e1)
      | (Inl err, c1, e1) \<Rightarrow>
          (case executeErrorInterceptors c1 err e1 of
             (Inl thrown, e2) \<Rightarrow> (Inl thrown, c1, e2)
           | (Inr handledError, e2) \<Rightarrow> (Inl handledError, c1, e2)))"

definition get :: "client \<Rightarrow> string \<Rightarrow> config \<Rightarrow> env \<Rightarrow> (error + envelope) \<times> client \<times> env" where
  "get c url cfg e = request c url (cfg\<lparr>cfg_method := Some ''GET''\<rparr>) e"

definition post :: "client \<Rightarrow> string \<Rightarrow> string option \<Rightarrow> config \<Rightarrow> env \<Rightarrow> (error + envelope) \<times> client \<times> env" where
  "post c url d cfg e =
     request c url (cfg\<lparr>cfg_method := Some ''POST'', cfg_data := d, cfg_cache := Some False\<rparr>) e"

definition put :: "client \<Rightarrow> string \<Rightarrow> string option \<Rightarrow> config \<Rightarrow> env \<Rightarrow> (error + envelope) \<times> client \<times> env" where
  "put c url d cfg e =
     request c url (cfg\<lparr>cfg_method := Some ''PUT'', cfg_data := d, cfg_cache := Some False\<rparr>) e"

definition patch :: "client \<Rightarrow> string \<Rightarrow> string option \<Rightarrow> config \<Rightarrow> env \<Rightarrow> (error + envelope) \<times> client \<times> env" where
  "patch c url d cfg e =
     request c url (cfg\<lparr>cfg_method := Some ''PATCH'', cfg_data := d, cfg_cache := Some False\<rparr>) e"

definition delete :: "client \<Rightarrow> string \<Rightarrow> config \<Rightarrow> env \<Rightarrow> (error + envelope) \<times> client \<times> env" where
  "delete c url cfg e =
     request c url (cfg\<lparr>cfg_method := Some ''DELETE'', cfg_cache := Some False\<rparr>) e"

subsection \<open>Observability accessors\<close>

record rateLimitStatus =
  requestsInWindow :: nat
  rl_maxRequests :: int
  remaining :: int
  rl_windowMs :: int
  resetTime :: int

text \<open>\<^verbatim>\<open>recentRequests[0] || now\<close>: a missing first element and the timestamp zero both
  give \<^verbatim>\<open>now\<close>.\<close>

definition getRateLimitStatus :: "client \<Rightarrow> env \<Rightarrow> rateLimitStatus \<times> client \<times> env" where
  "getRateLimitStatus c e =
     (let windowStart = now e - windowMs (rateLimitConfig c);
          recentRequests = filter (\<lambda>timestamp. timestamp > windowStart) (requestTimestamps c)
      in (\<lparr>requestsInWindow = length recentRequests,
           rl_maxRequests = maxRequests (rateLimitConfig c),
           remaining = maxRequests (rateLimitConfig c) - int (length recentRequests),
           rl_windowMs = windowMs (rateLimitConfig c),
           resetTime =
             (case recentRequests of [] \<Rightarrow> now e | t # _ \<Rightarrow> if t = 0 then now e else t)
               + windowMs (rateLimitConfig c)\<rparr>, c, e))"

record cacheStats =
  entries :: nat
  keys :: "string list"
  totalSize :: nat

fun joinComma :: "string list \<Rightarrow> string" where
  "joinComma [] = []"
| "joinComma [x] = x"
| "joinComma (x # y # ys) = x @ '','' @ joinComma (y # ys)"

text \<open>\<^verbatim>\<open>JSON.stringify\<close> of an array of objects, given how one object is serialized.\<close>

definition stringifyArray :: "('a \<Rightarrow> string) \<Rightarrow> 'a list \<Rightarrow> string" where
  "stringifyArray ser xs = ''['' @ joinComma (map ser xs) @ '']''"

definition getCacheStats :: "client \<Rightarrow> env \<Rightarrow> cacheStats \<times> client \<times> env" where
  "getCacheStats c e =
     (\<lparr>entries = length (cache c),
       keys = map fst (cache c),
       totalSize = length (stringifyArray (serialize e) (map snd (cache c)))\<rparr>, c, e)"

subsection \<open>Sequences of calls\<close>

text \<open>The public methods, and \<open>Wait\<close> for time that passes between two calls. \<open>run\<close>
  performs a sequence of calls one after the other, each request being awaited before the
  next call is made; what other code calls while a request is suspended is in the runtime's
  \<open>meanwhile\<close>.\<close>

datatype op =
    SetAuthToken string "string option"
  | SetRefreshToken string "int option"
  | AddRequestInterceptor "request \<Rightarrow> error + request"
  | AddResponseInterceptor "envelope \<Rightarrow> error + envelope"
  | AddErrorInterceptor "error \<Rightarrow> error + error"
  | Request string config
  | Get string config
  | Post string "string option" config
  | Put string "string option" config
  | Patch string "string option" config
  | Delete string config
  | ClearCache string
  | ClearAllCache
  | GetRateLimitStatus
  | GetCacheStats
  | Wait nat

fun call :: "op \<Rightarrow> client \<Rightarrow> env \<Rightarrow> client \<times> env" where
  "call (SetAuthToken token type) c e = (setAuthToken token type c, e)"
| "call (SetRefreshToken token expiryTime) c e = (setRefreshToken token expiryTime c e, e)"
| "call (AddRequestInterceptor f) c e = (addRequestInterceptor f c, e)"
| "call (AddResponseInterceptor f) c e = (addResponseInterceptor f c, e)"
| "call (AddErrorInterceptor f) c e = (addErrorInterceptor f c, e)"
| "call (Request url cfg) c e = snd (request c url cfg e)"
| "call (Get url cfg) c e = snd (get c url cfg e)"
| "call (Post url d cfg) c e = snd (post c url d cfg e)"
| "call (Put url d cfg) c e = snd (put c url d cfg e)"
| "call (Patch url d cfg) c e = snd (patch c url d cfg e)"
| "call (Delete url cfg) c e = snd (delete c url cfg e)"
| "call (ClearCache key) c e = clearCache key c e"
| "call ClearAllCache c e = clearAllCache c e"
| "call GetRateLimitStatus c e = snd (getRateLimitStatus c e)"
| "call GetCacheStats c e = snd (getCacheStats c e)"
| "call (Wait d) c e = advance (int d) c e"

fun run :: "op list \<Rightarrow> client \<Rightarrow> env \<Rightarrow> client \<times> env" where
  "run [] c e = (c, e)"
| "run (x # xs) c e = (case call x c e of (c', e') \<Rightarrow> run xs c' e')"

section \<open>Notions used in the statements\<close>

subsection \<open>Interceptor chains as folds\<close>

text \<open>What a chain of interceptors returns on a value, applied from the first registered
  to the last and stopping at the first that throws; how many of them it calls; and the
  events \<open>ev i, ev (i + 1), ...\<close> of \<open>n\<close> calls in a row.\<close>

fun chainResult :: "('a \<Rightarrow> error + 'a) list \<Rightarrow> 'a \<Rightarrow> error + 'a" where
  "chainResult [] x = Inr x"
| "chainResult (f # fs) x = (case f x of Inl err \<Rightarrow> Inl err | Inr y \<Rightarrow> chainResult fs y)"

fun chainCalls :: "('a \<Rightarrow> error + 'a) list \<Rightarrow> 'a \<Rightarrow> nat" where
  "chainCalls [] x = 0"
| "chainCalls (f # fs) x = (case f x of Inl err \<Rightarrow> 1 | Inr y \<Rightarrow> Suc (chainCalls fs y))"

definition calls :: "(nat \<Rightarrow> event) \<Rightarrow> nat \<Rightarrow> nat \<Rightarrow> event list" where
  "calls ev i n = map ev [i..<i + n]"

subsection \<open>Reading the event log\<close>

text \<open>The backoff delays among the events, in order, and the number of calls of the
  refresh hook (each prints one warning).\<close>

fun delays :: "event list \<Rightarrow> int list" where
  "delays [] = []"
| "delays (Delay d # evs) = d # delays evs"
| "delays (ev # evs) = delays evs"

definition warnings :: "env \<Rightarrow> nat" where
  "warnings e = count_list (events e) Warn"

subsection \<open>Parts of the request method\<close>

text \<open>The runtime after the token check at the head of \<^verbatim>\<open>request\<close>; the absolute URL
  of a call; and what the \<^verbatim>\<open>catch\<close> block throws, given the outcome of the error
  interceptors.\<close>

definition refreshed :: "client \<Rightarrow> env \<Rightarrow> env" where
  "refreshed c e =
     (if isTokenExpired c e \<and> orString (refreshToken c) \<noteq> None then logEvent Warn e else e)"

definition resolve :: "client \<Rightarrow> string \<Rightarrow> string" where
  "resolve c url = (if startsWith url ''http'' then url else baseURL c @ url)"

definition raised :: "error + error \<Rightarrow> error" where
  "raised x = (case x of Inl thrown \<Rightarrow> thrown | Inr handledError \<Rightarrow> handledError)"

text \<open>The timestamps that survive the pruning of a check made now, and the rate-limit
  checks of successive calls made at the given instants.\<close>

definition inWindow :: "client \<Rightarrow> env \<Rightarrow> int list" where
  "inWindow c e = filter (\<lambda>t. now e - windowMs (rateLimitConfig c) < t) (requestTimestamps c)"

fun callsAt :: "client \<Rightarrow> env \<Rightarrow> int list \<Rightarrow> bool list \<times> client" where
  "callsAt c e [] = ([], c)"
| "callsAt c e (t # ts) =
     (case checkRateLimit c (e\<lparr>now := t\<rparr>) of
        (r, c') \<Rightarrow> (case callsAt c' e ts of (rs, c'') \<Rightarrow> ((\<not> isl r) # rs, c'')))"

subsection \<open>Frames and the timer invariant\<close>

text \<open>\<open>elapses x y\<close>: from \<open>x\<close> to \<open>y\<close> time has passed and attempts were made, which
  can only remove cache entries and timers, call the transport and log events other than
  the refresh warning. \<open>sameSettings c c'\<close>: the clients differ at most in the cache, its
  timers and the rate window.\<close>

definition elapses :: "client \<times> env \<Rightarrow> client \<times> env \<Rightarrow> bool" where
  "elapses x y =
     (onlyCache (fst x) (fst y) \<and>
      set (cache (fst y)) \<subseteq> set (cache (fst x)) \<and>
      set (cacheTimers (fst y)) \<subseteq> set (cacheTimers (fst x)) \<and>
      fetch (snd y) = fetch (snd x) \<and> serialize (snd y) = serialize (snd x) \<and>
      nextTimer (snd y) = nextTimer (snd x) \<and>
      fetchCount (snd x) \<le> fetchCount (snd y) \<and> now (snd x) \<le> now (snd y) \<and>
      set (timers (snd y)) \<subseteq> set (timers (snd x)) \<and>
      (\<exists>evs. events (snd y) = events (snd x) @ evs \<and> Warn \<notin> set evs))"

definition sameSettings :: "client \<Rightarrow> client \<Rightarrow> bool" where
  "sameSettings c c' =
     (c' = c\<lparr>cache := cache c', cacheTimers := cacheTimers c',
            requestTimestamps := requestTimestamps c'\<rparr>)"


subsection \<open>Kinds of calls\<close>



fun setsRefreshToken :: "op \<Rightarrow> bool" where
  "setsRefreshToken (SetRefreshToken token expiryTime) = True"
| "setsRefreshToken x = False"

section \<open>Example data\<close>

text \<open>Concrete clients, transports and responses on which the statements below are
  evaluated.\<close>

definition defaults :: clientConfig where
  "defaults = \<lparr>cc_baseURL = None, cc_timeout = None, cc_maxRetries = None, cc_retryDelay = None,
     cc_cacheTTL = None, cc_authToken = None, cc_refreshToken = None, cc_rateLimit = None\<rparr>"

definition noOptions :: config where
  "noOptions = \<lparr>cfg_method = None, cfg_headers = [], cfg_data = None, cfg_params = None,
      cfg_cache = None, cfg_cacheTTL = None\<rparr>"

definition textResponse :: "bool \<Rightarrow> int \<Rightarrow> string \<Rightarrow> response" where
  "textResponse ok st body =
     \<lparr>res_ok = ok, res_status = st, res_statusText = [],
      res_headers = [(''content-type'', ''text/plain'')],
      res_json = Inl (newError ''Unexpected token''), res_text = Inr (Data None body),
      res_blob = Inr (Data None body)\<rparr>"

definition runtime :: "(nat \<Rightarrow> request \<Rightarrow> nat \<times> (error + response)) \<Rightarrow> env" where
  "runtime f = \<lparr>now = 1000000, timers = [], nextTimer = 0, fetch = f, fetchCount = 0,
      serialize = (\<lambda>r. ''{}''), events = [], suspensions = 0, meanwhile = (\<lambda>k. [])\<rparr>"

definition appendA :: "request \<Rightarrow> error + request" where
  "appendA x = Inr (x\<lparr>req_url := req_url x @ ''a''\<rparr>)"

definition appendB :: "request \<Rightarrow> error + request" where
  "appendB x = Inr (x\<lparr>req_url := req_url x @ ''b''\<rparr>)"

definition markA :: "envelope \<Rightarrow> error + envelope" where
  "markA r = Inr (r\<lparr>data := (case data r of Null \<Rightarrow> Null | Data m s \<Rightarrow> Data m (s @ ''A''))\<rparr>)"

definition markB :: "envelope \<Rightarrow> error + envelope" where
  "markB r = Inr (r\<lparr>data := (case data r of Null \<Rightarrow> Null | Data m s \<Rightarrow> Data m (s @ ''B''))\<rparr>)"

definition bothChains :: client where
  "bothChains =
     addResponseInterceptor markB (addResponseInterceptor markA
       (addRequestInterceptor appendB (addRequestInterceptor appendA (constructor defaults))))"

lemmas example_defs = defaults_def noOptions_def textResponse_def runtime_def appendA_def appendB_def
  constructor_def orNumber_def orString_def addRequestInterceptor_def
lemmas attempt_defs = performRequest_def executeRequestInterceptors_def executeResponseInterceptors_def
  buildFetchConfig_def methodOf_def toUpperCase_def upperChar_def logEvent_def advance_def
  suspend_def interleave_def timerDelay_def
  handleResponse_def httpError_def startsWith_def newError_def Let_def

lemmas request_defs = request_def requestTry_def isTokenExpired_def checkRateLimit_def
  generateCacheKey_def cacheable_def getFromCache_def retryRequest.simps setCache_def
  setTimeout_def clearTimeout_def executeErrorInterceptors_def isRetryableError_def sleep_def
  refreshAuthToken_def rateLimitError_def ceilSeconds_def showNumber_def showInt_def

definition saved :: env where
  "saved = runtime (\<lambda>n x. (5, Inr (textResponse True 200 ''saved'')))"

definition savedEnvelope :: envelope where
  "savedEnvelope = \<lparr>status = 200, statusText = [], headers = [(''content-type'', ''text/plain'')],
        data = Data None ''saved'', fromCache = False\<rparr>"

definition putOptions :: config where
  "putOptions = noOptions\<lparr>cfg_method := Some ''PUT''\<rparr>"


definition missing :: env where
  "missing = runtime (\<lambda>n x. (5, Inr (textResponse False 404 ''no such item'')))"

definition httpErrorOf :: "int \<Rightarrow> string \<Rightarrow> string \<Rightarrow> error" where
  "httpErrorOf st msg body =
     \<lparr>err_message = msg, err_status = Some st, err_data = Some (Data None body),
      err_headers = Some [(''content-type'', ''text/plain'')]\<rparr>"


definition plainGet :: request where
  "plainGet = \<lparr>req_url = ''/x'', req_method = ''GET'',
      req_headers = [(''Content-Type'', ''application/json'')], req_signal = 30000,
      req_body = None, originalConfig = noOptions\<rparr>"

definition noQuota :: client where
  "noQuota = constructor (defaults\<lparr>cc_rateLimit := Some \<lparr>maxRequests = 0, windowMs = 60000\<rparr>\<rparr>)"

definition twoPerMinute :: client where
  "twoPerMinute = constructor (defaults\<lparr>cc_rateLimit := Some \<lparr>maxRequests = 2, windowMs = 60000\<rparr>\<rparr>)"

definition tagError :: "error \<Rightarrow> error + error" where
  "tagError err = Inr (err\<lparr>err_message := ''[api] '' @ err_message err\<rparr>)"






section \<open>Properties\<close>

subsection \<open>Interceptor chains as folds\<close>

lemma calls_0: "calls ev i 0 = []"
  by (simp add: calls_def)

lemma calls_Suc: "calls ev i (Suc n) = ev i # calls ev (Suc i) n"
  by (simp add: calls_def upt_conv_Cons del: upt_Suc)

lemma chain_eq:
  "chain ev i fs x e = (chainResult fs x, e\<lparr>events := events e @ calls ev i (chainCalls fs x)\<rparr>)"
proof (induction fs arbitrary: i x e)
  case Nil
  show ?case by (simp add: calls_0)
next
  case (Cons f fs)
  show ?case
  proof (cases "f x")
    case (Inl err)
    then show ?thesis by (simp add: logEvent_def calls_Suc calls_0)
  next
    case (Inr y)
    then show ?thesis using Cons.IH [of "Suc i" y "logEvent (ev i) e"]
      by (simp add: logEvent_def calls_Suc)
  qed
qed

lemma chain_snoc:
  "chain ev i (fs @ [g]) x e =
     (case chain ev i fs x e of
        (Inl err, e') \<Rightarrow> (Inl err, e')
      | (Inr y, e') \<Rightarrow> (g y, logEvent (ev (i + length fs)) e'))"
proof (induction fs arbitrary: i x e)
  case Nil
  show ?case by (cases "g x") simp_all
next
  case (Cons f fs)
  show ?case
  proof (cases "f x")
    case (Inl err)
    then show ?thesis by simp
  next
    case (Inr y)
    then show ?thesis using Cons.IH [of "Suc i" y "logEvent (ev i) e"]
      by (simp split: prod.splits sum.splits)
  qed
qed

lemma chainCalls_le: "chainCalls fs x \<le> length fs"
  by (induction fs arbitrary: x) (auto split: sum.splits)

lemma chainCalls_Inr: "chainResult fs x = Inr y \<Longrightarrow> chainCalls fs x = length fs"
  by (induction fs arbitrary: x) (auto split: sum.splits)

lemma chainResult_snoc:
  "chainResult (fs @ [g]) x = (case chainResult fs x of Inl err \<Rightarrow> Inl err | Inr y \<Rightarrow> g y)"
  by (induction fs arbitrary: x) (auto split: sum.splits)

lemma executeRequestInterceptors_eq:
  "executeRequestInterceptors c x e =
     (chainResult (requestInterceptors c) x,
      e\<lparr>events := events e @ calls RequestInterceptor 0 (chainCalls (requestInterceptors c) x)\<rparr>)"
  by (simp add: executeRequestInterceptors_def chain_eq)

lemma executeResponseInterceptors_eq:
  "executeResponseInterceptors c x e =
     (chainResult (responseInterceptors c) x,
      e\<lparr>events := events e @ calls ResponseInterceptor 0 (chainCalls (responseInterceptors c) x)\<rparr>)"
  by (simp add: executeResponseInterceptors_def chain_eq)

lemma executeErrorInterceptors_eq:
  "executeErrorInterceptors c x e =
     (chainResult (errorInterceptors c) x,
      e\<lparr>events := events e @ calls ErrorInterceptor 0 (chainCalls (errorInterceptors c) x)\<rparr>)"
  by (simp add: executeErrorInterceptors_def chain_eq)

lemma onlyCache_interceptors:
  "onlyCache c c' \<Longrightarrow>
     requestInterceptors c' = requestInterceptors c \<and>
     responseInterceptors c' = responseInterceptors c \<and>
     errorInterceptors c' = errorInterceptors c"
  by (cases c, cases c') (simp add: onlyCache_def)

subsection \<open>What a request attempt and the retry loop leave alone\<close>

text \<open>A property that holds across one attempt and across one backoff delay, and that is
  transitive, holds across the whole retry loop.\<close>

lemma retryRequest_rel:
  assumes attempt: "\<And>c url cfg e r c' e'. performRequest c url cfg e = (r, c', e') \<Longrightarrow> R (c, e) (c', e')"
    and pause: "\<And>d c e c' e'. sleep d c e = (c', e') \<Longrightarrow> R (c, e) (c', e')"
    and trans: "\<And>x y z. R x y \<Longrightarrow> R y z \<Longrightarrow> R x z"
  shows "retryRequest c url cfg n e = (r, c', e') \<Longrightarrow> R (c, e) (c', e')"
proof (induction c url cfg n e arbitrary: r c' e' rule: retryRequest.induct)
  case (1 c url cfg n e)
  obtain r1 c1 e1 where p: "performRequest c url cfg e = (r1, c1, e1)"
    by (cases "performRequest c url cfg e") auto
  have first: "R (c, e) (c1, e1)" using attempt [OF p] .
  show ?case
  proof (cases r1)
    case (Inr env)
    with p "1.prems" have "(c', e') = (c1, e1)"
      by (simp add: retryRequest.simps)
    with first show ?thesis by simp
  next
    case (Inl err)
    show ?thesis
    proof (cases "int n < maxRetries c1 \<and> isRetryableError err")
      case False
      with p Inl "1.prems" have "(c', e') = (c1, e1)"
        by (auto simp: retryRequest.simps)
      with first show ?thesis by simp
    next
      case True
      obtain c2 e2 where s: "sleep (retryDelay c1 * 2 ^ n) c1 e1 = (c2, e2)"
        by (cases "sleep (retryDelay c1 * 2 ^ n) c1 e1") auto
      have again: "retryRequest c2 url cfg (Suc n) e2 = (r, c', e')"
        using p Inl True s "1.prems" by (simp add: retryRequest.simps)
      have "R (c2, e2) (c', e')"
        using "1.IH" [OF p [symmetric] _ _ True s [symmetric] again] Inl by simp
      with first pause [OF s] trans show ?thesis by blast
    qed
  qed
qed

lemma elapses_refl: "elapses x x"
  by (simp add: elapses_def onlyCache_refl)

lemma elapses_trans:
  assumes "elapses x y" and "elapses y z"
  shows "elapses x z"
proof -
  obtain evs1 where 1: "events (snd y) = events (snd x) @ evs1" "Warn \<notin> set evs1"
    using assms(1) by (auto simp: elapses_def)
  obtain evs2 where 2: "events (snd z) = events (snd y) @ evs2" "Warn \<notin> set evs2"
    using assms(2) by (auto simp: elapses_def)
  have "events (snd z) = events (snd x) @ (evs1 @ evs2) \<and> Warn \<notin> set (evs1 @ evs2)"
    using 1 2 by simp
  then have "\<exists>evs. events (snd z) = events (snd x) @ evs \<and> Warn \<notin> set evs"
    by blast
  moreover have "onlyCache (fst x) (fst z)"
    using assms onlyCache_trans by (auto simp: elapses_def)
  ultimately show ?thesis
    using assms unfolding elapses_def by (auto dest: subsetD)
qed

lemma foldl_clearTimeout:
  "foldl (\<lambda>e' timer. clearTimeout timer e') e hs =
     e\<lparr>timers := filter (\<lambda>t. fst t \<notin> set hs) (timers e)\<rparr>"
proof (induction hs arbitrary: e)
  case Nil
  show ?case by simp
next
  case (Cons h hs)
  have "filter (\<lambda>t. fst t \<notin> set hs) (filter (\<lambda>t. fst t \<noteq> h) (timers e)) =
        filter (\<lambda>t. fst t \<notin> set (h # hs)) (timers e)"
    by (auto intro: filter_cong)
  then show ?case using Cons.IH [of "clearTimeout h e"] by (simp add: clearTimeout_def)
qed

lemma clearAllCache_eq:
  "clearAllCache c e =
     (c\<lparr>cacheTimers := [], cache := []\<rparr>,
      e\<lparr>timers := filter (\<lambda>t. fst t \<notin> snd ` set (cacheTimers c)) (timers e)\<rparr>)"
  by (simp add: clearAllCache_def foldl_clearTimeout)

lemma set_foldl_expire:
  "set (cache (foldl expire c ts)) \<subseteq> set (cache c) \<and>
   set (cacheTimers (foldl expire c ts)) \<subseteq> set (cacheTimers c)"
proof (induction ts arbitrary: c)
  case Nil
  show ?case by simp
next
  case (Cons t ts)
  have "set (cache (expire c t)) \<subseteq> set (cache c) \<and> set (cacheTimers (expire c t)) \<subseteq> set (cacheTimers c)"
    by (auto simp: expire_def AList.delete_eq)
  with Cons.IH [of "expire c t"] show ?case by auto
qed

lemma elapses_advance: "elapses (c, e) (advance d c e)"
  using set_foldl_expire [of c] onlyCache_foldl_expire [of c]
  by (auto simp: elapses_def advance_def Let_def)

lemma elapses_logEvent: "ev \<noteq> Warn \<Longrightarrow> elapses (c, e) (c, logEvent ev e)"
  by (simp add: elapses_def logEvent_def onlyCache_refl)

lemma elapses_interleave: "elapses s (interleave x s)"
proof (cases x)
  case (ClearKey k)
  have "y \<in> set (AList.delete k xs) \<Longrightarrow> y \<in> set xs" for y and xs :: "(string \<times> 'a) list"
    by (auto simp: AList.delete_eq)
  note sub = this [of _ "cache (fst s)"] this [of _ "cacheTimers (fst s)"]
  show ?thesis
    using onlyCache_interleave [of s x] ClearKey
    by (auto simp: elapses_def interleave_def clearCache_def clearTimeout_def split_beta
        split: option.split dest: sub)
next
  case ClearEverything
  then show ?thesis
    using onlyCache_interleave [of s x]
    by (auto simp: elapses_def interleave_def clearAllCache_eq)
qed

lemma elapses_during: "elapses s (during xs d s)"
proof (induction xs d s rule: during.induct)
  case (1 d s)
  show ?case using elapses_advance [of "fst s" "snd s" d] by simp
next
  case (2 dt x xs d s)
  let ?w = "min (int dt) (if d < 0 then 0 else d)"
  let ?a = "advance ?w (fst s) (snd s)"
  have 1: "elapses s ?a" using elapses_advance [of "fst s" "snd s" ?w] by simp
  have 2: "elapses ?a (interleave x ?a)" by (rule elapses_interleave)
  have 3: "elapses (interleave x ?a) (during xs (d - ?w) (interleave x ?a))"
    using "2.IH" [OF refl] .
  from elapses_trans [OF elapses_trans [OF 1 2] 3] show ?case by (simp add: Let_def)
qed

lemma elapses_suspensions: "elapses (c, e) (c, e\<lparr>suspensions := n\<rparr>)"
  by (simp add: elapses_def onlyCache_refl)

lemma elapses_suspend: "elapses (c, e) (suspend d c e)"
  unfolding suspend_def
  by (rule elapses_trans [OF elapses_suspensions elapses_during])

lemma elapses_sleep: "elapses (c, e) (sleep d c e)"
  unfolding sleep_def
  using elapses_trans [OF elapses_logEvent elapses_suspend] by blast

lemma Warn_notin_calls:
  "Warn \<notin> set (calls RequestInterceptor i n) \<and> Warn \<notin> set (calls ResponseInterceptor i n) \<and>
   Warn \<notin> set (calls ErrorInterceptor i n)"
  by (auto simp: calls_def)

lemma elapses_events:
  "Warn \<notin> set evs \<Longrightarrow> elapses (c, e) (c, e\<lparr>events := events e @ evs\<rparr>)"
  by (simp add: elapses_def onlyCache_refl)

lemma elapses_fetchCount: "elapses (c, e) (c, e\<lparr>fetchCount := Suc (fetchCount e)\<rparr>)"
  by (simp add: elapses_def onlyCache_refl)

lemma elapses_performRequest: "elapses (c, e) (snd (performRequest c url cfg e))"
proof -
  let ?fc = "buildFetchConfig c url cfg"
  let ?e1 = "e\<lparr>events := events e @ calls RequestInterceptor 0 (chainCalls (requestInterceptors c) ?fc)\<rparr>"
  have 1: "elapses (c, e) (c, ?e1)"
    by (rule elapses_events) (simp add: Warn_notin_calls)
  show ?thesis
  proof (cases "chainResult (requestInterceptors c) ?fc")
    case (Inl err)
    with 1 show ?thesis by (simp add: performRequest_def executeRequestInterceptors_eq)
  next
    case (Inr ic)
    let ?e2 = "(logEvent (Fetch ic) ?e1)\<lparr>fetchCount := Suc (fetchCount ?e1)\<rparr>"
    let ?lat = "int (fst (fetch ?e1 (fetchCount ?e1) ic))"
    have 2: "elapses (c, ?e1) (c, ?e2)"
      using elapses_trans [OF elapses_logEvent elapses_fetchCount, of "Fetch ic" c ?e1]
      by (simp add: logEvent_def)
    have 3: "elapses (c, ?e2) (suspend ?lat c ?e2)"
      by (rule elapses_suspend)
    have 123: "elapses (c, e) (suspend ?lat c ?e2)"
      using elapses_trans [OF 1 elapses_trans [OF 2 3]] .
    obtain c3 e3 where adv: "suspend ?lat c ?e2 = (c3, e3)"
      by (cases "suspend ?lat c ?e2") auto
    have 4: "\<And>r. elapses (c3, e3) (c3, snd (executeResponseInterceptors c3 r e3))"
      by (simp add: executeResponseInterceptors_eq elapses_events Warn_notin_calls)
    have "snd (performRequest c url cfg e) = (c3, e3) \<or>
          (\<exists>r. snd (performRequest c url cfg e) = (c3, snd (executeResponseInterceptors c3 r e3)))"
      using Inr adv
      by (auto simp: performRequest_def executeRequestInterceptors_eq Let_def split_beta
          split: sum.splits prod.splits)
    then show ?thesis
      using 123 adv 4 elapses_trans by fastforce
  qed
qed

lemma elapses_retryRequest: "elapses (c, e) (snd (retryRequest c url cfg n e))"
proof -
  obtain r c' e' where rr: "retryRequest c url cfg n e = (r, c', e')"
    by (cases "retryRequest c url cfg n e") auto
  have "elapses (c, e) (c', e')"
  proof (rule retryRequest_rel [where R = elapses, OF _ _ _ rr])
    show "\<And>c url cfg e r c' e'. performRequest c url cfg e = (r, c', e') \<Longrightarrow> elapses (c, e) (c', e')"
      using elapses_performRequest by (metis snd_conv)
    show "\<And>d c e c' e'. sleep d c e = (c', e') \<Longrightarrow> elapses (c, e) (c', e')"
      using elapses_sleep by metis
    show "\<And>x y z. elapses x y \<Longrightarrow> elapses y z \<Longrightarrow> elapses x z"
      by (rule elapses_trans)
  qed
  with rr show ?thesis by simp
qed

subsection \<open>The request method, step by step\<close>

lemma performRequest_Inr_fetchCount:
  assumes "fst (performRequest c url cfg e) = Inr r"
  shows "fetchCount e < fetchCount (snd (snd (performRequest c url cfg e)))"
proof -
  let ?fc = "buildFetchConfig c url cfg"
  obtain ic where ic: "chainResult (requestInterceptors c) ?fc = Inr ic"
    using assms by (cases "chainResult (requestInterceptors c) ?fc")
      (simp_all add: performRequest_def executeRequestInterceptors_eq)
  show ?thesis
    using ic
    by (auto simp: performRequest_def executeRequestInterceptors_eq executeResponseInterceptors_eq
        Let_def split_beta suspend_fields logEvent_def split: sum.splits)
qed

lemma retryRequest_Inr_fetchCount:
  "fst (retryRequest c url cfg n e) = Inr r \<Longrightarrow>
     fetchCount e < fetchCount (snd (snd (retryRequest c url cfg n e)))"
proof (induction c url cfg n e rule: retryRequest.induct)
  case (1 c url cfg n e)
  obtain r1 c1 e1 where p: "performRequest c url cfg e = (r1, c1, e1)"
    by (cases "performRequest c url cfg e") auto
  show ?case
  proof (cases r1)
    case (Inr env)
    with p performRequest_Inr_fetchCount [of c url cfg e env] show ?thesis
      by (simp add: retryRequest.simps)
  next
    case (Inl err)
    show ?thesis
    proof (cases "int n < maxRetries c1 \<and> isRetryableError err")
      case False
      with p Inl "1.prems" show ?thesis by (auto simp: retryRequest.simps)
    next
      case True
      obtain c2 e2 where s: "sleep (retryDelay c1 * 2 ^ n) c1 e1 = (c2, e2)"
        by (cases "sleep (retryDelay c1 * 2 ^ n) c1 e1") auto
      have eq: "retryRequest c url cfg n e = retryRequest c2 url cfg (Suc n) e2"
        using p Inl True s by (simp add: retryRequest.simps)
      have "fetchCount e2 < fetchCount (snd (snd (retryRequest c2 url cfg (Suc n) e2)))"
        using "1.IH" [OF p [symmetric] _ _ True s [symmetric]] Inl "1.prems" eq by simp
      moreover have "fetchCount e \<le> fetchCount e1"
        using elapses_performRequest [of c e url cfg] p by (simp add: elapses_def)
      moreover have "fetchCount e1 \<le> fetchCount e2"
        using elapses_sleep [of c1 e1 "retryDelay c1 * 2 ^ n"] s by (simp add: elapses_def)
      ultimately show ?thesis using eq by simp
    qed
  qed
qed

lemma checkRateLimit_frame:
  "snd (checkRateLimit c e) = c\<lparr>requestTimestamps := requestTimestamps (snd (checkRateLimit c e))\<rparr>"
  by (simp add: checkRateLimit_def Let_def)

lemma sum_prod_case_id:
  "(case x of (Inl err, c3, e3) \<Rightarrow> (Inl err, c3, e3) | (Inr r, c3, e3) \<Rightarrow> (Inr r, c3, e3)) = x"
  by (simp split: prod.splits sum.splits)

lemma fetchCount_refreshed: "fetchCount (refreshed c e) = fetchCount e"
  by (simp add: refreshed_def logEvent_def)

lemma requestTry_eq:
  "requestTry c url cfg e =
     (case checkRateLimit c (refreshed c e) of
        (Inl err, c2) \<Rightarrow> (Inl err, c2, refreshed c e)
      | (Inr u, c2) \<Rightarrow>
          (case (if cacheable cfg then getFromCache c2 (generateCacheKey (resolve c2 url) cfg) else None) of
             Some cachedResponse \<Rightarrow> (Inr cachedResponse, c2, refreshed c e)
           | None \<Rightarrow>
               (case retryRequest c2 (resolve c2 url) cfg 0 (refreshed c e) of
                  (Inl err, c3, e3) \<Rightarrow> (Inl err, c3, e3)
                | (Inr r, c3, e3) \<Rightarrow>
                    if cacheable cfg then
                      (case setCache (generateCacheKey (resolve c2 url) cfg) r (cfg_cacheTTL cfg) c3 e3 of
                         (c4, e4) \<Rightarrow> (Inr r, c4, e4))
                    else (Inr r, c3, e3))))"
proof -
  define b where "b = (isTokenExpired c e \<and> orString (refreshToken c) \<noteq> None)"
  show ?thesis
    unfolding requestTry_def refreshed_def b_def [symmetric]
    by (cases b)
      (simp_all add: refreshAuthToken_def resolve_def Let_def
        split: prod.split sum.split option.split)
qed

lemma requestTry_limited:
  assumes "fst (checkRateLimit c (refreshed c e)) = Inl err"
  shows "requestTry c url cfg e = (Inl err, snd (checkRateLimit c (refreshed c e)), refreshed c e)"
  using assms
  by (cases "checkRateLimit c (refreshed c e)") (simp add: requestTry_eq)

lemma requestTry_not_cacheable:
  assumes "\<not> cacheable cfg" and "fst (checkRateLimit c (refreshed c e)) = Inr u"
  shows "requestTry c url cfg e =
     retryRequest (snd (checkRateLimit c (refreshed c e)))
       (resolve (snd (checkRateLimit c (refreshed c e))) url) cfg 0 (refreshed c e)"
  using assms
  by (cases "checkRateLimit c (refreshed c e)")
    (simp add: requestTry_eq split: prod.split sum.split)

lemma request_Inr: "fst (request c url cfg e) = Inr r \<longleftrightarrow> fst (requestTry c url cfg e) = Inr r"
proof -
  obtain r0 c1 e1 where "requestTry c url cfg e = (r0, c1, e1)" by (metis prod_cases3)
  then show ?thesis by (cases r0) (simp_all add: request_def split: prod.split sum.split)
qed

lemma request_client: "fst (snd (request c url cfg e)) = fst (snd (requestTry c url cfg e))"
proof -
  obtain r0 c1 e1 where "requestTry c url cfg e = (r0, c1, e1)" by (metis prod_cases3)
  then show ?thesis by (cases r0) (simp_all add: request_def split: prod.split sum.split)
qed

lemma request_env_Inr:
  assumes "fst (requestTry c url cfg e) = Inr r"
  shows "snd (snd (request c url cfg e)) = snd (snd (requestTry c url cfg e))"
proof -
  obtain r0 c1 e1 where "requestTry c url cfg e = (r0, c1, e1)" by (metis prod_cases3)
  then show ?thesis using assms by (simp add: request_def)
qed

lemma cache_checkRateLimit: "cache (snd (checkRateLimit c e)) = cache c"
  by (simp add: checkRateLimit_def Let_def)

lemma not_cacheable_request:
  assumes "\<not> cacheable cfg"
  shows "set (cache (fst (snd (request c url cfg e)))) \<subseteq> set (cache c) \<and>
     (\<forall>r. fst (request c url cfg e) = Inr r \<longrightarrow>
        fetchCount e < fetchCount (snd (snd (request c url cfg e))))"
proof (cases "fst (checkRateLimit c (refreshed c e))")
  case (Inl err)
  show ?thesis
    using requestTry_limited [OF Inl, of url cfg]
    by (simp add: request_Inr request_client cache_checkRateLimit)
next
  case (Inr u)
  let ?c2 = "snd (checkRateLimit c (refreshed c e))"
  let ?rr = "retryRequest ?c2 (resolve ?c2 url) cfg 0 (refreshed c e)"
  have tr: "requestTry c url cfg e = ?rr"
    using requestTry_not_cacheable [OF assms Inr] .
  have "elapses (?c2, refreshed c e) (snd ?rr)"
    by (rule elapses_retryRequest)
  then have sub: "set (cache (fst (snd ?rr))) \<subseteq> set (cache c)"
    by (simp add: elapses_def cache_checkRateLimit)
  have fc: "\<And>r. fst ?rr = Inr r \<Longrightarrow> fetchCount e < fetchCount (snd (snd ?rr))"
  proof -
    fix r assume "fst ?rr = Inr r"
    from retryRequest_Inr_fetchCount [OF this] fetchCount_refreshed [of c e]
    show "fetchCount e < fetchCount (snd (snd ?rr))"
      by simp
  qed
  show ?thesis
  proof (intro conjI allI impI)
    show "set (cache (fst (snd (request c url cfg e)))) \<subseteq> set (cache c)"
      using sub by (simp add: request_client tr)
  next
    fix r assume "fst (request c url cfg e) = Inr r"
    then have ok: "fst (requestTry c url cfg e) = Inr r" by (simp add: request_Inr)
    then have "fst ?rr = Inr r" by (simp add: tr)
    from fc [OF this] show "fetchCount e < fetchCount (snd (snd (request c url cfg e)))"
      using request_env_Inr [OF ok] tr by simp
  qed
qed

subsection \<open>The retry loop, step by step\<close>

lemma delays_append: "delays (xs @ ys) = delays xs @ delays ys"
  by (induction xs rule: delays.induct) simp_all

lemma delays_calls:
  "delays (calls RequestInterceptor i n) = [] \<and> delays (calls ResponseInterceptor i n) = [] \<and>
   delays (calls ErrorInterceptor i n) = []"
  by (induction n arbitrary: i) (simp_all add: calls_0 calls_Suc)




lemma suspend_onlyCache: "onlyCache c (fst (suspend d c e))"
  using onlyCache_suspend [of d c e] by (cases "suspend d c e") simp



lemma attempt_outcome:
  assumes "chainResult (requestInterceptors c) (buildFetchConfig c url cfg) = Inr ic"
  shows "fst (performRequest c url cfg e) =
           (case snd (fetch e (fetchCount e) ic) of
              Inl err \<Rightarrow> Inl err
            | Inr res \<Rightarrow>
                (case handleResponse res of
                   Inl err \<Rightarrow> Inl err
                 | Inr r \<Rightarrow> chainResult (responseInterceptors c) r))"
    and "fetchCount (snd (snd (performRequest c url cfg e))) = Suc (fetchCount e)"
    and "delays (events (snd (snd (performRequest c url cfg e)))) = delays (events e)"
proof -
  have same: "\<And>d e'. responseInterceptors (fst (suspend d c e')) = responseInterceptors c"
    using suspend_onlyCache onlyCache_interceptors by blast
  show "fst (performRequest c url cfg e) =
           (case snd (fetch e (fetchCount e) ic) of
              Inl err \<Rightarrow> Inl err
            | Inr res \<Rightarrow>
                (case handleResponse res of
                   Inl err \<Rightarrow> Inl err
                 | Inr r \<Rightarrow> chainResult (responseInterceptors c) r))"
    using assms same
    by (simp add: performRequest_def executeRequestInterceptors_eq executeResponseInterceptors_eq
        Let_def split_beta split: sum.split)
  show "fetchCount (snd (snd (performRequest c url cfg e))) = Suc (fetchCount e)"
    using assms
    by (simp add: performRequest_def executeRequestInterceptors_eq executeResponseInterceptors_eq
        Let_def split_beta suspend_fields logEvent_def split: sum.split)
  show "delays (events (snd (snd (performRequest c url cfg e)))) = delays (events e)"
    using assms
    by (simp add: performRequest_def executeRequestInterceptors_eq executeResponseInterceptors_eq
        Let_def split_beta suspend_fields logEvent_def delays_append delays_calls split: sum.split)
qed





subsection \<open>The rate limiter and the client's settings\<close>

lemma checkRateLimit_refused:
  assumes "1 \<le> maxRequests (rateLimitConfig c)"
    and "maxRequests (rateLimitConfig c) \<le> int (length (inWindow c e))"
  shows "\<exists>oldest rest w. inWindow c e = oldest # rest \<and>
           w = - ((- (windowMs (rateLimitConfig c) - (now e - oldest))) div 1000) \<and> 0 < w \<and>
           checkRateLimit c e =
             (Inl (newError (''Rate limit exceeded. Please wait '' @ showInt w @ '' seconds.'')),
              c\<lparr>requestTimestamps := inWindow c e\<rparr>)"
proof -
  obtain oldest rest where ne: "inWindow c e = oldest # rest"
    using assms by (cases "inWindow c e") auto
  then have "oldest \<in> set (inWindow c e)" by simp
  then have "now e - windowMs (rateLimitConfig c) < oldest"
    by (simp add: inWindow_def)
  then have pos: "0 < windowMs (rateLimitConfig c) - (now e - oldest)" by simp
  define w where "w = - ((- (windowMs (rateLimitConfig c) - (now e - oldest))) div 1000)"
  have "0 < w" using pos unfolding w_def by linarith
  moreover have "checkRateLimit c e =
      (Inl (newError (''Rate limit exceeded. Please wait '' @ showInt w @ '' seconds.'')),
       c\<lparr>requestTimestamps := inWindow c e\<rparr>)"
    using assms(2) ne
    by (simp add: checkRateLimit_def Let_def inWindow_def [symmetric] rateLimitError_def
        ceilSeconds_def showNumber_def w_def)
  ultimately show ?thesis using ne w_def by blast
qed

lemma checkRateLimit_admitted:
  assumes "int (length (inWindow c e)) < maxRequests (rateLimitConfig c)"
  shows "checkRateLimit c e = (Inr (), c\<lparr>requestTimestamps := inWindow c e @ [now e]\<rparr>)"
  using assms by (simp add: checkRateLimit_def Let_def inWindow_def [symmetric])

lemma sameSettings_trans: "sameSettings c c' \<Longrightarrow> sameSettings c' c'' \<Longrightarrow> sameSettings c c''"
  by (cases c, cases c', cases c'') (simp add: sameSettings_def)

lemma sameSettings_checkRateLimit: "sameSettings c (snd (checkRateLimit c e))"
  by (simp add: sameSettings_def checkRateLimit_def Let_def)

lemma sameSettings_onlyCache: "onlyCache c c' \<Longrightarrow> sameSettings c c'"
  by (cases c, cases c') (simp add: sameSettings_def onlyCache_def)

lemma sameSettings_setCache: "sameSettings c (fst (setCache k r ttl c e))"
  by (simp add: sameSettings_def setCache_def setTimeout_def Let_def split: option.split)

lemma timestamps_onlyCache: "onlyCache c c' \<Longrightarrow> requestTimestamps c' = requestTimestamps c"
  by (cases c, cases c') (simp add: onlyCache_def)

lemma timestamps_setCache: "requestTimestamps (fst (setCache k r ttl c e)) = requestTimestamps c"
  by (simp add: setCache_def setTimeout_def Let_def split: option.split)

lemma now_refreshed: "now (refreshed c e) = now e"
  by (simp add: refreshed_def logEvent_def)

lemma checkRateLimit_refreshed: "checkRateLimit c (refreshed c e) = checkRateLimit c e"
  by (simp add: checkRateLimit_def now_refreshed Let_def split: list.split)

lemma requestTry_client:
  "sameSettings c (fst (snd (requestTry c url cfg e))) \<and>
   requestTimestamps (fst (snd (requestTry c url cfg e))) =
     requestTimestamps (snd (checkRateLimit c e))"
proof -
  obtain rl c2 where rl: "checkRateLimit c e = (rl, c2)" by (metis prod.collapse)
  have c2: "sameSettings c c2" using sameSettings_checkRateLimit [of c e] rl by simp
  let ?key = "generateCacheKey (resolve c2 url) cfg"
  show ?thesis
  proof (cases rl)
    case (Inl err)
    with rl c2 show ?thesis by (simp add: requestTry_eq checkRateLimit_refreshed)
  next
    case (Inr u)
    show ?thesis
    proof (cases "if cacheable cfg then getFromCache c2 ?key else None")
      case (Some hit)
      with rl Inr c2 show ?thesis by (simp add: requestTry_eq checkRateLimit_refreshed)
    next
      case None
      obtain rr c3 e3 where rr: "retryRequest c2 (resolve c2 url) cfg 0 (refreshed c e) = (rr, c3, e3)"
        by (metis prod_cases3)
      have oc: "onlyCache c2 c3"
        using elapses_retryRequest [of c2 "refreshed c e" "resolve c2 url" cfg 0] rr
        by (simp add: elapses_def)
      have c3: "sameSettings c c3" "requestTimestamps c3 = requestTimestamps c2"
        using sameSettings_trans [OF c2 sameSettings_onlyCache [OF oc]] timestamps_onlyCache [OF oc]
        by simp_all
      show ?thesis
      proof (cases rr)
        case (Inl err)
        with rl Inr None rr c3 show ?thesis
          by (simp add: requestTry_eq checkRateLimit_refreshed)
      next
        case (Inr r)
        obtain c4 e4 where sc: "setCache ?key r (cfg_cacheTTL cfg) c3 e3 = (c4, e4)"
          by (metis prod.collapse)
        have "sameSettings c c4" "requestTimestamps c4 = requestTimestamps c2"
          using sameSettings_trans [OF c3(1) sameSettings_setCache [of c3 ?key r "cfg_cacheTTL cfg" e3]]
            timestamps_setCache [of ?key r "cfg_cacheTTL cfg" c3 e3] c3(2) sc by simp_all
        with rl \<open>rl = Inr u\<close> None rr Inr c3 sc show ?thesis
          by (simp add: requestTry_eq checkRateLimit_refreshed)
      qed
    qed
  qed
qed

lemma sameSettings_errorInterceptors: "sameSettings c c' \<Longrightarrow> errorInterceptors c' = errorInterceptors c"
  by (cases c, cases c') (simp add: sameSettings_def)

lemma request_failure:
  assumes "fst (requestTry c url cfg e) = Inl err"
  shows "request c url cfg e =
     (Inl (raised (chainResult (errorInterceptors c) err)),
      fst (snd (requestTry c url cfg e)),
      (snd (snd (requestTry c url cfg e)))
        \<lparr>events := events (snd (snd (requestTry c url cfg e))) @
           calls ErrorInterceptor 0 (chainCalls (errorInterceptors c) err)\<rparr>)"
proof -
  obtain r0 c1 e1 where t: "requestTry c url cfg e = (r0, c1, e1)" by (metis prod_cases3)
  have "errorInterceptors c1 = errorInterceptors c"
    using requestTry_client [of c url cfg e] t sameSettings_errorInterceptors by simp
  then show ?thesis
    using assms t
    by (simp add: request_def executeErrorInterceptors_eq raised_def split: sum.split)
qed

lemma request_success:
  assumes "fst (requestTry c url cfg e) = Inr r"
  shows "request c url cfg e = requestTry c url cfg e"
proof -
  obtain r0 c1 e1 where t: "requestTry c url cfg e = (r0, c1, e1)" by (metis prod_cases3)
  then show ?thesis using assms by (simp add: request_def)
qed

lemma callsAt_admits:
  assumes "\<forall>x \<in> set (requestTimestamps c) \<union> set ts. \<forall>y \<in> set ts. y - x < windowMs (rateLimitConfig c)"
    and "int (length (requestTimestamps c) + length ts) \<le> maxRequests (rateLimitConfig c)"
  shows "callsAt c e ts =
           (replicate (length ts) True, c\<lparr>requestTimestamps := requestTimestamps c @ ts\<rparr>)"
  using assms
proof (induction ts arbitrary: c)
  case Nil
  show ?case by simp
next
  case (Cons t ts)
  let ?e = "e\<lparr>now := t\<rparr>"
  let ?c = "c\<lparr>requestTimestamps := requestTimestamps c @ [t]\<rparr>"
  have "\<forall>x \<in> set (requestTimestamps c). now ?e - windowMs (rateLimitConfig c) < x"
  proof
    fix x assume "x \<in> set (requestTimestamps c)"
    with Cons.prems(1) have "t - x < windowMs (rateLimitConfig c)" by simp
    then show "now ?e - windowMs (rateLimitConfig c) < x" by simp
  qed
  then have all: "inWindow c ?e = requestTimestamps c"
    by (simp add: inWindow_def)
  have "int (length (inWindow c ?e)) < maxRequests (rateLimitConfig c)"
    using Cons.prems(2) all by simp
  from checkRateLimit_admitted [OF this]
  have step: "checkRateLimit c ?e = (Inr (), ?c)" using all by simp
  have "callsAt ?c e ts = (replicate (length ts) True, ?c\<lparr>requestTimestamps := requestTimestamps ?c @ ts\<rparr>)"
  proof (rule Cons.IH)
    show "\<forall>x \<in> set (requestTimestamps ?c) \<union> set ts. \<forall>y \<in> set ts. y - x < windowMs (rateLimitConfig ?c)"
      using Cons.prems(1) by auto
    show "int (length (requestTimestamps ?c) + length ts) \<le> maxRequests (rateLimitConfig ?c)"
      using Cons.prems(2) by simp
  qed
  with step show ?case by simp
qed

lemma requestTry_Inr:
  assumes "fst (requestTry c url cfg e) = Inr r"
  shows "(\<exists>v. cacheable cfg \<and>
            map_of (cache c) (generateCacheKey (resolve c url) cfg) = Some v \<and>
            r = v\<lparr>fromCache := True\<rparr>) \<or>
         fst (retryRequest (snd (checkRateLimit c e)) (resolve c url) cfg 0 (refreshed c e)) = Inr r"
proof -
  obtain rl c2 where rl: "checkRateLimit c e = (rl, c2)" by (metis prod.collapse)
  have c2: "cache c2 = cache c" "resolve c2 url = resolve c url"
    using cache_checkRateLimit [of c e] sameSettings_checkRateLimit [of c e] rl
    by (cases c, cases c2, simp add: sameSettings_def resolve_def)+
  let ?key = "generateCacheKey (resolve c2 url) cfg"
  show ?thesis
  proof (cases rl)
    case (Inl err)
    with rl assms show ?thesis by (simp add: requestTry_eq checkRateLimit_refreshed)
  next
    case (Inr u)
    show ?thesis
    proof (cases "if cacheable cfg then getFromCache c2 ?key else None")
      case (Some hit)
      with rl Inr assms have "r = hit" by (simp add: requestTry_eq checkRateLimit_refreshed)
      with Some c2 show ?thesis
        by (auto simp: getFromCache_def split: if_splits option.splits)
    next
      case None
      obtain rr c3 e3 where rr: "retryRequest c2 (resolve c2 url) cfg 0 (refreshed c e) = (rr, c3, e3)"
        by (metis prod_cases3)
      have "rr = Inr r"
        using rl Inr None rr assms
        by (cases rr) (simp_all add: requestTry_eq checkRateLimit_refreshed split: prod.splits if_splits)
      with rr rl c2 show ?thesis by simp
    qed
  qed
qed

subsection \<open>Cache entries and their expiry timers\<close>


lemma delete_filter: "AList.delete k xs = filter (\<lambda>kv. fst kv \<noteq> k) xs"
  by (induction xs) auto

lemma foldl_expire_eq:
  "cache (foldl expire c ts) = filter (\<lambda>kv. fst kv \<notin> (\<lambda>t. snd (snd t)) ` set ts) (cache c) \<and>
   cacheTimers (foldl expire c ts) =
     filter (\<lambda>kv. fst kv \<notin> (\<lambda>t. snd (snd t)) ` set ts) (cacheTimers c)"
proof (induction ts arbitrary: c)
  case Nil
  show ?case by simp
next
  case (Cons t ts)
  have "\<And>xs :: (string \<times> 'x) list.
      filter (\<lambda>kv. fst kv \<notin> (\<lambda>t. snd (snd t)) ` set ts) (filter (\<lambda>kv. fst kv \<noteq> snd (snd t)) xs) =
      filter (\<lambda>kv. fst kv \<notin> (\<lambda>t. snd (snd t)) ` set (t # ts)) xs"
    by (auto intro: filter_cong)
  then show ?case
    using Cons.IH [of "expire c t"] by (simp add: expire_def delete_filter)
qed

lemma advance_eq:
  "advance d c e =
     (c\<lparr>cache := filter (\<lambda>kv. fst kv \<notin> (\<lambda>t. snd (snd t)) ` {t \<in> set (timers e). fst (snd t) \<le> now e + (if d < 0 then 0 else d)}) (cache c),
        cacheTimers := filter (\<lambda>kv. fst kv \<notin> (\<lambda>t. snd (snd t)) ` {t \<in> set (timers e). fst (snd t) \<le> now e + (if d < 0 then 0 else d)}) (cacheTimers c)\<rparr>,
      e\<lparr>now := now e + (if d < 0 then 0 else d),
        timers := filter (\<lambda>t. \<not> fst (snd t) \<le> now e + (if d < 0 then 0 else d)) (timers e)\<rparr>)"
proof -
  let ?t = "now e + (if d < 0 then 0 else d)"
  let ?due = "filter (\<lambda>t'. fst (snd t') \<le> ?t) (timers e)"
  have "onlyCache c (foldl expire c ?due)" by (rule onlyCache_foldl_expire)
  then have "foldl expire c ?due =
      c\<lparr>cache := cache (foldl expire c ?due), cacheTimers := cacheTimers (foldl expire c ?due)\<rparr>"
    by (simp add: onlyCache_def)
  then show ?thesis
    using foldl_expire_eq [of c ?due]
    by (simp add: advance_def Let_def)
qed






















subsection \<open>The paths through the request method, and the refresh hook\<close>

lemma requestTry_cases:
  obtains
    (limited) err where
      "requestTry c url cfg e = (Inl err, snd (checkRateLimit c e), refreshed c e)"
  | (hit) v where "cacheable cfg"
      "map_of (cache c) (generateCacheKey (resolve c url) cfg) = Some v"
      "requestTry c url cfg e = (Inr (v\<lparr>fromCache := True\<rparr>), snd (checkRateLimit c e), refreshed c e)"
  | (failed) err c3 e3 where
      "retryRequest (snd (checkRateLimit c e)) (resolve c url) cfg 0 (refreshed c e) = (Inl err, c3, e3)"
      "requestTry c url cfg e = (Inl err, c3, e3)"
  | (stored) r c3 e3 where "cacheable cfg"
      "retryRequest (snd (checkRateLimit c e)) (resolve c url) cfg 0 (refreshed c e) = (Inr r, c3, e3)"
      "requestTry c url cfg e =
         (Inr r, setCache (generateCacheKey (resolve c url) cfg) r (cfg_cacheTTL cfg) c3 e3)"
  | (fresh) r c3 e3 where "\<not> cacheable cfg"
      "retryRequest (snd (checkRateLimit c e)) (resolve c url) cfg 0 (refreshed c e) = (Inr r, c3, e3)"
      "requestTry c url cfg e = (Inr r, c3, e3)"
proof -
  obtain rl c2 where rl: "checkRateLimit c e = (rl, c2)" by (metis prod.collapse)
  have c2: "cache c2 = cache c" "resolve c2 url = resolve c url"
    using cache_checkRateLimit [of c e] sameSettings_checkRateLimit [of c e] rl
    by (cases c, cases c2, simp add: sameSettings_def resolve_def)+
  let ?key = "generateCacheKey (resolve c2 url) cfg"
  show ?thesis
  proof (cases rl)
    case (Inl err)
    with rl have "requestTry c url cfg e = (Inl err, snd (checkRateLimit c e), refreshed c e)"
      by (simp add: requestTry_eq checkRateLimit_refreshed)
    then show ?thesis by (rule limited)
  next
    case (Inr u)
    show ?thesis
    proof (cases "if cacheable cfg then getFromCache c2 ?key else None")
      case (Some h)
      then obtain v where v: "cacheable cfg" "map_of (cache c2) ?key = Some v" "h = v\<lparr>fromCache := True\<rparr>"
        by (auto simp: getFromCache_def split: if_splits option.splits)
      have "requestTry c url cfg e = (Inr (v\<lparr>fromCache := True\<rparr>), snd (checkRateLimit c e), refreshed c e)"
        using rl Inr Some v(3) by (simp add: requestTry_eq checkRateLimit_refreshed)
      with v c2 show ?thesis using hit by simp
    next
      case None
      obtain rr c3 e3 where rr: "retryRequest c2 (resolve c2 url) cfg 0 (refreshed c e) = (rr, c3, e3)"
        by (metis prod_cases3)
      show ?thesis
      proof (cases rr)
        case (Inl err)
        have "requestTry c url cfg e = (Inl err, c3, e3)"
          using rl \<open>rl = Inr u\<close> None rr Inl by (simp add: requestTry_eq checkRateLimit_refreshed)
        with rr Inl rl c2 show ?thesis using failed by simp
      next
        case (Inr r)
        show ?thesis
        proof (cases "cacheable cfg")
          case True
          have "requestTry c url cfg e = (Inr r, setCache ?key r (cfg_cacheTTL cfg) c3 e3)"
            using rl \<open>rl = Inr u\<close> None rr Inr True
            by (simp add: requestTry_eq checkRateLimit_refreshed split: prod.split)
          with rr Inr rl c2 True show ?thesis using stored by simp
        next
          case False
          have "requestTry c url cfg e = (Inr r, c3, e3)"
            using rl \<open>rl = Inr u\<close> None rr Inr False
            by (simp add: requestTry_eq checkRateLimit_refreshed)
          with rr Inr rl c2 False show ?thesis using fresh by simp
        qed
      qed
    qed
  qed
qed

lemma elapses_warnings: "elapses x y \<Longrightarrow> warnings (snd y) = warnings (snd x)"
  by (auto simp: elapses_def warnings_def)

lemma warnings_setCache: "warnings (snd (setCache k r ttl c e)) = warnings e"
  by (simp add: warnings_def setCache_def setTimeout_def clearTimeout_def Let_def split: option.split)

lemma warnings_calls: "warnings (e\<lparr>events := events e @ calls ErrorInterceptor i n\<rparr>) = warnings e"
  using Warn_notin_calls [of i n] by (simp add: warnings_def)

lemma refreshed_None: "tokenExpiryTime c = None \<Longrightarrow> refreshed c e = e"
  by (simp add: refreshed_def isTokenExpired_def)

lemma requestTry_warnings:
  assumes "tokenExpiryTime c = None"
  shows "warnings (snd (snd (requestTry c url cfg e))) = warnings e"
proof -
  note same = refreshed_None [OF assms, of e]
  have loop: "warnings e3 = warnings e"
    if "retryRequest (snd (checkRateLimit c e)) (resolve c url) cfg 0 (refreshed c e) = (r, c3, e3)"
    for r c3 e3
    using elapses_warnings [OF elapses_retryRequest
        [of "snd (checkRateLimit c e)" "refreshed c e" "resolve c url" cfg 0]] that same
    by simp
  show ?thesis
  proof (cases rule: requestTry_cases [where c = c and url = url and cfg = cfg and e = e])
    case (limited err)
    with same show ?thesis by simp
  next
    case (hit v)
    with same show ?thesis by simp
  next
    case (failed err c3 e3)
    with loop show ?thesis by simp
  next
    case (stored r c3 e3)
    with loop show ?thesis by (simp add: warnings_setCache)
  next
    case (fresh r c3 e3)
    with loop show ?thesis by simp
  qed
qed

lemma request_warnings:
  assumes "tokenExpiryTime c = None"
  shows "warnings (snd (snd (request c url cfg e))) = warnings e"
proof (cases "fst (requestTry c url cfg e)")
  case (Inl err)
  from request_failure [OF this] requestTry_warnings [OF assms, of url cfg e]
  show ?thesis by (simp add: warnings_calls)
next
  case (Inr r)
  from request_success [OF this] requestTry_warnings [OF assms, of url cfg e]
  show ?thesis by simp
qed

lemma request_tokenExpiryTime:
  "tokenExpiryTime (fst (snd (request c url cfg e))) = tokenExpiryTime c"
proof -
  have "sameSettings c (fst (snd (request c url cfg e)))"
    using requestTry_client [of c url cfg e] by (simp add: request_client)
  then show ?thesis
    by (cases c, cases "fst (snd (request c url cfg e))") (simp add: sameSettings_def)
qed

lemma call_without_refresh:
  assumes "\<not> setsRefreshToken x" and "tokenExpiryTime c = None"
  shows "tokenExpiryTime (fst (call x c e)) = None \<and> warnings (snd (call x c e)) = warnings e"
  using assms request_warnings [OF assms(2)] request_tokenExpiryTime [of c]
  by (cases x)
    (simp_all add: get_def post_def put_def patch_def delete_def setAuthToken_def
      addRequestInterceptor_def addResponseInterceptor_def addErrorInterceptor_def
      clearCache_def clearTimeout_def clearAllCache_eq getRateLimitStatus_def getCacheStats_def
      advance_eq Let_def warnings_def split: option.split)

lemma run_without_refresh:
  assumes "list_all (\<lambda>x. \<not> setsRefreshToken x) xs" and "tokenExpiryTime c = None"
  shows "tokenExpiryTime (fst (run xs c e)) = None \<and> warnings (snd (run xs c e)) = warnings e"
  using assms
proof (induction xs arbitrary: c e)
  case Nil
  then show ?case by simp
next
  case (Cons x xs)
  from Cons.prems have x: "\<not> setsRefreshToken x" and xs: "list_all (\<lambda>x. \<not> setsRefreshToken x) xs"
    by simp_all
  note step = call_without_refresh [OF x Cons.prems(2), of e]
  from Cons.IH [OF xs step [THEN conjunct1], of "snd (call x c e)"] step
  show ?case by (simp add: split_beta)
qed

subsection \<open>Hits, misses and the lifetime of an entry\<close>




subsection \<open>Interceptor ordering\<close>

lemma performRequest_events:
  assumes "chainResult (requestInterceptors c) (buildFetchConfig c url cfg) = Inr ic"
  shows "events (snd (snd (performRequest c url cfg e))) =
     events e @ calls RequestInterceptor 0 (length (requestInterceptors c)) @ [Fetch ic] @
       (case snd (fetch e (fetchCount e) ic) of
          Inl err \<Rightarrow> []
        | Inr res \<Rightarrow>
            (case handleResponse res of
               Inl err \<Rightarrow> []
             | Inr er \<Rightarrow> calls ResponseInterceptor 0 (chainCalls (responseInterceptors c) er)))"
proof -
  have same: "\<And>d e'. responseInterceptors (fst (suspend d c e')) = responseInterceptors c"
    using suspend_onlyCache onlyCache_interceptors by blast
  show ?thesis
    using assms chainCalls_Inr [OF assms] same
    by (simp add: performRequest_def executeRequestInterceptors_eq executeResponseInterceptors_eq
        Let_def split_beta suspend_fields logEvent_def split: sum.split)
qed

text \<open>
  C7. A new client has no interceptors. Registering a further interceptor puts it behind the
  ones already registered: it runs on the value the earlier ones produced, and only when none
  of them threw. This holds for the request chain and for the response chain, so each chain
  applies its interceptors in registration order, one call after the other.

  Every attempt begins by running the request chain on the descriptor built from the call. If
  an interceptor throws, the attempt fails with what it threw and the transport is not called;
  otherwise the transport is called next, with the chain's output. If the transport resolves
  and the response is read as a success, the attempt returns what the response chain makes of
  that very envelope (its result, or what it threw); otherwise it fails with the error of the
  transport or of the reading.

  On a successful attempt, then: the transport has resolved on the output of the request
  chain, the result is the response chain's output on the envelope read from that response,
  and the calls made were the whole request chain in positions \<open>0, 1, ...\<close>, the transport,
  and the whole response chain in positions \<open>0, 1, ...\<close>, in this order.
\<close>

theorem interceptors_run_in_registration_order:
  "executeRequestInterceptors (constructor cc) x e = (Inr x, e) \<and>
   executeResponseInterceptors (constructor cc) r e = (Inr r, e) \<and>
   executeRequestInterceptors (addRequestInterceptor g c) x e =
     (case executeRequestInterceptors c x e of
        (Inl err, e1) \<Rightarrow> (Inl err, e1)
      | (Inr y, e1) \<Rightarrow> (g y, logEvent (RequestInterceptor (length (requestInterceptors c))) e1)) \<and>
   executeResponseInterceptors (addResponseInterceptor h c) r e =
     (case executeResponseInterceptors c r e of
        (Inl err, e1) \<Rightarrow> (Inl err, e1)
      | (Inr y, e1) \<Rightarrow> (h y, logEvent (ResponseInterceptor (length (responseInterceptors c))) e1)) \<and>
   (case executeRequestInterceptors c (buildFetchConfig c url cfg) e of
      (Inl err, e1) \<Rightarrow> performRequest c url cfg e = (Inl err, c, e1)
    | (Inr ic, e1) \<Rightarrow>
        take (Suc (length (events e1))) (events (snd (snd (performRequest c url cfg e)))) =
          events e1 @ [Fetch ic] \<and>
        fst (performRequest c url cfg e) =
          (case snd (fetch e (fetchCount e) ic) of
             Inl err \<Rightarrow> Inl err
           | Inr res \<Rightarrow>
               (case handleResponse res of
                  Inl err \<Rightarrow> Inl err
                | Inr er \<Rightarrow> fst (executeResponseInterceptors c er e')))) \<and>
   (fst (performRequest c url cfg e) = Inr r' \<longrightarrow>
      (\<exists>ic res er.
         fst (executeRequestInterceptors c (buildFetchConfig c url cfg) e) = Inr ic \<and>
         snd (fetch e (fetchCount e) ic) = Inr res \<and>
         handleResponse res = Inr er \<and>
         fst (executeResponseInterceptors c er e') = Inr r' \<and>
         events (snd (snd (performRequest c url cfg e))) =
           events e @ map RequestInterceptor [0..<length (requestInterceptors c)] @ [Fetch ic] @
             map ResponseInterceptor [0..<length (responseInterceptors c)]))"
proof (intro conjI impI)
  show "executeRequestInterceptors (constructor cc) x e = (Inr x, e)"
    by (simp add: executeRequestInterceptors_def constructor_def)
  show "executeResponseInterceptors (constructor cc) r e = (Inr r, e)"
    by (simp add: executeResponseInterceptors_def constructor_def)
  show "executeRequestInterceptors (addRequestInterceptor g c) x e =
     (case executeRequestInterceptors c x e of
        (Inl err, e1) \<Rightarrow> (Inl err, e1)
      | (Inr y, e1) \<Rightarrow> (g y, logEvent (RequestInterceptor (length (requestInterceptors c))) e1))"
    by (simp add: executeRequestInterceptors_def addRequestInterceptor_def chain_snoc
        split: prod.splits sum.splits)
  show "executeResponseInterceptors (addResponseInterceptor h c) r e =
     (case executeResponseInterceptors c r e of
        (Inl err, e1) \<Rightarrow> (Inl err, e1)
      | (Inr y, e1) \<Rightarrow> (h y, logEvent (ResponseInterceptor (length (responseInterceptors c))) e1))"
    by (simp add: executeResponseInterceptors_def addResponseInterceptor_def chain_snoc
        split: prod.splits sum.splits)
next
  let ?fc = "buildFetchConfig c url cfg"
  show "case executeRequestInterceptors c ?fc e of
      (Inl err, e1) \<Rightarrow> performRequest c url cfg e = (Inl err, c, e1)
    | (Inr ic, e1) \<Rightarrow>
        take (Suc (length (events e1))) (events (snd (snd (performRequest c url cfg e)))) =
          events e1 @ [Fetch ic] \<and>
        fst (performRequest c url cfg e) =
          (case snd (fetch e (fetchCount e) ic) of
             Inl err \<Rightarrow> Inl err
           | Inr res \<Rightarrow>
               (case handleResponse res of
                  Inl err \<Rightarrow> Inl err
                | Inr er \<Rightarrow> fst (executeResponseInterceptors c er e')))"
  proof (cases "chainResult (requestInterceptors c) ?fc")
    case (Inl err)
    then show ?thesis by (simp add: performRequest_def executeRequestInterceptors_eq)
  next
    case (Inr ic)
    have "take (Suc (length (events e) + length (requestInterceptors c)))
        (events (snd (snd (performRequest c url cfg e)))) =
        events e @ calls RequestInterceptor 0 (length (requestInterceptors c)) @ [Fetch ic]"
      by (simp add: performRequest_events [OF Inr] calls_def)
    with Inr attempt_outcome(1) [OF Inr, of e] show ?thesis
      by (simp add: executeRequestInterceptors_eq executeResponseInterceptors_eq
          chainCalls_Inr [OF Inr] calls_def split: sum.split)
  qed
next
  assume ok: "fst (performRequest c url cfg e) = Inr r'"
  let ?fc = "buildFetchConfig c url cfg"
  obtain ic where ic: "chainResult (requestInterceptors c) ?fc = Inr ic"
    using ok by (cases "chainResult (requestInterceptors c) ?fc")
      (simp_all add: performRequest_def executeRequestInterceptors_eq)
  note out = attempt_outcome(1) [OF ic, of e]
  obtain res where res: "snd (fetch e (fetchCount e) ic) = Inr res"
    using ok out by (cases "snd (fetch e (fetchCount e) ic)") simp_all
  obtain er where er: "handleResponse res = Inr er"
    using ok out res by (cases "handleResponse res") simp_all
  have r': "chainResult (responseInterceptors c) er = Inr r'"
    using ok out res er by simp
  have "events (snd (snd (performRequest c url cfg e))) =
           events e @ map RequestInterceptor [0..<length (requestInterceptors c)] @ [Fetch ic] @
             map ResponseInterceptor [0..<length (responseInterceptors c)]"
    using performRequest_events [OF ic, of e] res er chainCalls_Inr [OF r']
    by (simp add: calls_def)
  moreover have "fst (executeRequestInterceptors c ?fc e) = Inr ic"
    using ic by (simp add: executeRequestInterceptors_eq)
  moreover have "fst (executeResponseInterceptors c er e') = Inr r'"
    using r' by (simp add: executeResponseInterceptors_eq)
  ultimately show "\<exists>ic res er.
         fst (executeRequestInterceptors c (buildFetchConfig c url cfg) e) = Inr ic \<and>
         snd (fetch e (fetchCount e) ic) = Inr res \<and>
         handleResponse res = Inr er \<and>
         fst (executeResponseInterceptors c er e') = Inr r' \<and>
         events (snd (snd (performRequest c url cfg e))) =
           events e @ map RequestInterceptor [0..<length (requestInterceptors c)] @ [Fetch ic] @
             map ResponseInterceptor [0..<length (responseInterceptors c)]"
    using res er by blast
qed

text \<open>Request interceptors \<open>appendA\<close> then \<open>appendB\<close> and response interceptors \<open>markA\<close>
  then \<open>markB\<close>: the transport is asked for \<^verbatim>\<open>/xab\<close>, and its answer \<^verbatim>\<open>hello\<close> comes back as
  \<^verbatim>\<open>helloAB\<close>.\<close>

theorem interceptors_run_in_registration_order_witness:
  "fst (performRequest bothChains ''/x'' noOptions (runtime (\<lambda>n x. (5, Inr (textResponse True 200 ''hello''))))) =
     Inr \<lparr>status = 200, statusText = [], headers = [(''content-type'', ''text/plain'')],
          data = Data None ''helloAB'', fromCache = False\<rparr> \<and>
   events (snd (snd (performRequest bothChains ''/x'' noOptions
          (runtime (\<lambda>n x. (5, Inr (textResponse True 200 ''hello''))))))) =
     [RequestInterceptor 0, RequestInterceptor (Suc 0),
      Fetch \<lparr>req_url = ''/xab'', req_method = ''GET'',
             req_headers = [(''Content-Type'', ''application/json'')], req_signal = 30000,
             req_body = None, originalConfig = noOptions\<rparr>,
      ResponseInterceptor 0, ResponseInterceptor (Suc 0)] \<and>
   fst (executeResponseInterceptors bothChains
         \<lparr>status = 200, statusText = [], headers = [(''content-type'', ''text/plain'')],
          data = Data None ''hello'', fromCache = False\<rparr> (runtime (\<lambda>n x. (0, Inl (newError []))))) =
     Inr \<lparr>status = 200, statusText = [], headers = [(''content-type'', ''text/plain'')],
          data = Data None ''helloAB'', fromCache = False\<rparr>"
proof -
  let ?c = "bothChains"
  let ?e = "runtime (\<lambda>n x. (5, Inr (textResponse True 200 ''hello'')))"
  let ?e' = "runtime (\<lambda>n x. (0, Inl (newError [])))"
  let ?ic = "\<lparr>req_url = ''/xab'', req_method = ''GET'',
             req_headers = [(''Content-Type'', ''application/json'')], req_signal = 30000,
             req_body = None, originalConfig = noOptions\<rparr>"
  let ?er = "\<lparr>status = 200, statusText = [], headers = [(''content-type'', ''text/plain'')],
          data = Data None ''hello'', fromCache = False\<rparr>"
  have ok: "fst (performRequest ?c ''/x'' noOptions ?e) =
     Inr \<lparr>status = 200, statusText = [], headers = [(''content-type'', ''text/plain'')],
          data = Data None ''helloAB'', fromCache = False\<rparr>"
    by (simp add: bothChains_def markA_def markB_def addResponseInterceptor_def example_defs attempt_defs)
  have ic: "fst (executeRequestInterceptors ?c (buildFetchConfig ?c ''/x'' noOptions) ?e) = Inr ?ic"
    by (simp add: bothChains_def addResponseInterceptor_def example_defs attempt_defs)
  have len: "length (requestInterceptors ?c) = 2" "length (responseInterceptors ?c) = 2"
    "events ?e = []"
    by (simp_all add: bothChains_def addResponseInterceptor_def example_defs)
  have res: "snd (fetch ?e (fetchCount ?e) ?ic) = Inr (textResponse True 200 ''hello'')"
    by (simp add: example_defs)
  have er: "handleResponse (textResponse True 200 ''hello'') = Inr ?er"
    by (simp add: example_defs attempt_defs)
  note law = interceptors_run_in_registration_order [where c = ?c and url = "''/x''" and cfg = noOptions
      and e = ?e and e' = ?e', THEN conjunct2, THEN conjunct2, THEN conjunct2, THEN conjunct2,
      THEN conjunct2, rule_format, OF ok]
  from law ic res er ok len show ?thesis
    by (auto simp: upt_rec)
qed

subsection \<open>The accessors\<close>

text \<open>
  C9. \<^verbatim>\<open>getRateLimitStatus\<close> and \<^verbatim>\<open>getCacheStats\<close> return the client and the runtime as
  they found them, so dropping them from any sequence of calls changes nothing. The first
  reports the number of timestamps inside the window, the quota that remains (it is used up
  exactly when the limiter would refuse a call made now) and the reset instant; the second
  reports the number of entries, their keys in insertion order and the length of their
  serialization.
\<close>

theorem accessors_are_read_only:
  "snd (getRateLimitStatus c e) = (c, e) \<and>
   snd (getCacheStats c e) = (c, e) \<and>
   run (xs @ [GetRateLimitStatus, GetCacheStats] @ ys) c e = run (xs @ ys) c e \<and>
   requestsInWindow (fst (getRateLimitStatus c e)) =
     length (filter (\<lambda>t. now e - windowMs (rateLimitConfig c) < t) (requestTimestamps c)) \<and>
   remaining (fst (getRateLimitStatus c e)) =
     maxRequests (rateLimitConfig c) - int (requestsInWindow (fst (getRateLimitStatus c e))) \<and>
   (remaining (fst (getRateLimitStatus c e)) \<le> 0) = isl (fst (checkRateLimit c e)) \<and>
   resetTime (fst (getRateLimitStatus c e)) =
     (case filter (\<lambda>t. now e - windowMs (rateLimitConfig c) < t) (requestTimestamps c) of
        [] \<Rightarrow> now e
      | t # ts \<Rightarrow> if t = 0 then now e else t) + windowMs (rateLimitConfig c) \<and>
   entries (fst (getCacheStats c e)) = length (cache c) \<and>
   keys (fst (getCacheStats c e)) = map fst (cache c) \<and>
   totalSize (fst (getCacheStats c e)) =
     length (stringifyArray (serialize e) (map snd (cache c)))"
proof -
  have run_app: "\<And>zs c e. run (xs @ zs) c e = (case run xs c e of (c', e') \<Rightarrow> run zs c' e')"
    by (induction xs) (auto split: prod.splits)
  have "run (xs @ [GetRateLimitStatus, GetCacheStats] @ ys) c e = run (xs @ ys) c e"
    by (simp add: run_app getRateLimitStatus_def getCacheStats_def Let_def split: prod.splits)
  moreover have "(remaining (fst (getRateLimitStatus c e)) \<le> 0) = isl (fst (checkRateLimit c e))"
    by (simp add: getRateLimitStatus_def checkRateLimit_def Let_def)
  ultimately show ?thesis
    by (simp add: getRateLimitStatus_def getCacheStats_def Let_def)
qed

subsection \<open>POST and the cache\<close>

text \<open>
  C5. A request whose method upper-cases to \<^verbatim>\<open>POST\<close> never touches the cache, whatever the
  per-call cache flag is: every entry the cache holds after the call was there before it
  (nothing is written), and a call that returns a success envelope has called the transport
  (nothing is served from the cache). The same holds for the \<^verbatim>\<open>post\<close> wrapper with any
  options. The client and the runtime are arbitrary, so this holds after any sequence of
  operations.
\<close>

theorem post_never_uses_cache:
  assumes "map_option toUpperCase (cfg_method cfg) = Some ''POST''"
  shows "set (cache (fst (snd (request c url (cfg\<lparr>cfg_cache := flag\<rparr>) e)))) \<subseteq> set (cache c) \<and>
     (\<forall>r. fst (request c url (cfg\<lparr>cfg_cache := flag\<rparr>) e) = Inr r \<longrightarrow>
        fetchCount e < fetchCount (snd (snd (request c url (cfg\<lparr>cfg_cache := flag\<rparr>) e)))) \<and>
     set (cache (fst (snd (post c url d cfg' e)))) \<subseteq> set (cache c) \<and>
     (\<forall>r. fst (post c url d cfg' e) = Inr r \<longrightarrow>
        fetchCount e < fetchCount (snd (snd (post c url d cfg' e))))"
proof -
  have 1: "\<not> cacheable (cfg\<lparr>cfg_cache := flag\<rparr>)"
    using assms by (simp add: cacheable_def)
  have 2: "\<not> cacheable (cfg'\<lparr>cfg_method := Some ''POST'', cfg_data := d, cfg_cache := Some False\<rparr>)"
    by (simp add: cacheable_def)
  show ?thesis
    using not_cacheable_request [OF 1, of c url e] not_cacheable_request [OF 2, of c url e]
    unfolding post_def by blast
qed

theorem post_never_uses_cache_witness:
  "map_option toUpperCase (cfg_method (noOptions\<lparr>cfg_method := Some ''post''\<rparr>)) = Some ''POST'' \<and>
   fst (request ((constructor defaults)\<lparr>cache := [(''POST:/orders:'', savedEnvelope\<lparr>data := Data None ''stale''\<rparr>)]\<rparr>)
          ''/orders'' (noOptions\<lparr>cfg_method := Some ''post'', cfg_cache := Some True\<rparr>) saved) = Inr savedEnvelope \<and>
   fetchCount saved <
     fetchCount (snd (snd (request ((constructor defaults)\<lparr>cache := [(''POST:/orders:'', savedEnvelope\<lparr>data := Data None ''stale''\<rparr>)]\<rparr>)
          ''/orders'' (noOptions\<lparr>cfg_method := Some ''post'', cfg_cache := Some True\<rparr>) saved))) \<and>
   set (cache (fst (snd (request ((constructor defaults)\<lparr>cache := [(''POST:/orders:'', savedEnvelope\<lparr>data := Data None ''stale''\<rparr>)]\<rparr>)
          ''/orders'' (noOptions\<lparr>cfg_method := Some ''post'', cfg_cache := Some True\<rparr>) saved)))) \<subseteq>
     {(''POST:/orders:'', savedEnvelope\<lparr>data := Data None ''stale''\<rparr>)}"
proof -
  let ?c = "(constructor defaults)\<lparr>cache := [(''POST:/orders:'', savedEnvelope\<lparr>data := Data None ''stale''\<rparr>)]\<rparr>"
  let ?cfg = "noOptions\<lparr>cfg_method := Some ''post''\<rparr>"
  have m: "map_option toUpperCase (cfg_method ?cfg) = Some ''POST''"
    by (simp add: toUpperCase_def upperChar_def)
  have r: "fst (request ?c ''/orders'' (?cfg\<lparr>cfg_cache := Some True\<rparr>) saved) = Inr savedEnvelope"
    by (simp add: saved_def savedEnvelope_def example_defs attempt_defs request_defs)
  from post_never_uses_cache [OF m, of ?c "''/orders''" "Some True" saved] m r
  show ?thesis by simp
qed

subsection \<open>Mutating requests and the cache\<close>

text \<open>The verb wrappers for the mutating methods pass \<^verbatim>\<open>cache: false\<close>, and such a call
  writes nothing to the cache.\<close>

lemma mutating_wrappers_write_nothing:
  "set (cache (fst (snd (put c url d cfg e)))) \<subseteq> set (cache c) \<and>
   set (cache (fst (snd (patch c url d cfg e)))) \<subseteq> set (cache c) \<and>
   set (cache (fst (snd (delete c url cfg e)))) \<subseteq> set (cache c)"
  unfolding put_def patch_def delete_def
  by (simp add: not_cacheable_request cacheable_def)

text \<open>
  C4. Through \<^verbatim>\<open>request\<close> directly the guard only excludes \<^verbatim>\<open>POST\<close>: a \<^verbatim>\<open>PUT\<close> without
  an explicit \<^verbatim>\<open>cache: false\<close> on a fresh default client stores its response under the key
  \<^verbatim>\<open>PUT:/items/1:\<close>, and a second identical \<^verbatim>\<open>PUT\<close> is answered from that entry without
  reaching the transport (the transport has still been called once).
\<close>

theorem put_through_request_is_cached:
  "cache (fst (snd (request (constructor defaults) ''/items/1'' putOptions saved))) =
     [(''PUT:/items/1:'', savedEnvelope)] \<and>
   fetchCount (snd (snd (request (constructor defaults) ''/items/1'' putOptions saved))) = 1 \<and>
   fst (request (fst (snd (request (constructor defaults) ''/items/1'' putOptions saved)))
          ''/items/1'' putOptions
          (snd (snd (request (constructor defaults) ''/items/1'' putOptions saved)))) =
     Inr (savedEnvelope\<lparr>fromCache := True\<rparr>) \<and>
   fetchCount (snd (snd (request (fst (snd (request (constructor defaults) ''/items/1'' putOptions saved)))
          ''/items/1'' putOptions
          (snd (snd (request (constructor defaults) ''/items/1'' putOptions saved)))))) = 1"
  by (simp add: putOptions_def saved_def savedEnvelope_def example_defs attempt_defs request_defs)

subsection \<open>Retry and backoff\<close>




subsection \<open>Rate limiting\<close>

text \<open>
  C2, for a client whose \<open>maxRequests\<close> is at least 1. The check first prunes the
  timestamps that are not younger than the window. If at least \<open>maxRequests\<close> remain, the
  call fails with the rate-limit error whose message names a positive number of seconds, the
  ceiling of what remains of the window counted from the oldest remaining timestamp; no
  timestamp is recorded, the transport is not called and nothing is waited for; what the
  caller receives is this error after the error interceptors. Otherwise the current instant
  is appended and stays recorded when the call is over. Hence, starting without timestamps,
  \<open>maxRequests\<close> calls that lie pairwise within \<open>windowMs\<close> all pass, a further call
  within \<open>windowMs\<close> of all of them is refused, and a call made when \<open>windowMs\<close> has
  elapsed since each of them passes.
\<close>

theorem rate_limit_window:
  assumes "1 \<le> maxRequests (rateLimitConfig c)"
  shows "(maxRequests (rateLimitConfig c) \<le> int (length (inWindow c e)) \<longrightarrow>
       (\<exists>oldest rest w. inWindow c e = oldest # rest \<and>
          w = - ((- (windowMs (rateLimitConfig c) - (now e - oldest))) div 1000) \<and> 0 < w \<and>
          checkRateLimit c e =
            (Inl (newError (''Rate limit exceeded. Please wait '' @ showInt w @ '' seconds.'')),
             c\<lparr>requestTimestamps := inWindow c e\<rparr>) \<and>
          fst (request c url cfg e) =
            Inl (raised (chainResult (errorInterceptors c)
              (newError (''Rate limit exceeded. Please wait '' @ showInt w @ '' seconds.''))))) \<and>
       requestTimestamps (fst (snd (request c url cfg e))) = inWindow c e \<and>
       fetchCount (snd (snd (request c url cfg e))) = fetchCount e \<and>
       delays (events (snd (snd (request c url cfg e)))) = delays (events e)) \<and>
    (int (length (inWindow c e)) < maxRequests (rateLimitConfig c) \<longrightarrow>
       checkRateLimit c e = (Inr (), c\<lparr>requestTimestamps := inWindow c e @ [now e]\<rparr>) \<and>
       requestTimestamps (fst (snd (request c url cfg e))) = inWindow c e @ [now e]) \<and>
    (requestTimestamps c = [] \<and> int (length ts) = maxRequests (rateLimitConfig c) \<and>
     (\<forall>x \<in> set ts. \<forall>y \<in> set ts. y - x < windowMs (rateLimitConfig c)) \<longrightarrow>
       callsAt c e ts = (replicate (length ts) True, c\<lparr>requestTimestamps := ts\<rparr>) \<and>
       (\<forall>t. (\<forall>x \<in> set ts. t - x < windowMs (rateLimitConfig c)) \<longrightarrow>
            isl (fst (checkRateLimit (snd (callsAt c e ts)) (e\<lparr>now := t\<rparr>)))) \<and>
       (\<forall>t. (\<forall>x \<in> set ts. x + windowMs (rateLimitConfig c) \<le> t) \<longrightarrow>
            fst (checkRateLimit (snd (callsAt c e ts)) (e\<lparr>now := t\<rparr>)) = Inr ()))"
proof (intro conjI impI)
  assume full: "maxRequests (rateLimitConfig c) \<le> int (length (inWindow c e))"
  obtain oldest rest w where ne: "inWindow c e = oldest # rest"
    and w: "w = - ((- (windowMs (rateLimitConfig c) - (now e - oldest))) div 1000)" "0 < w"
    and refused: "checkRateLimit c e =
            (Inl (newError (''Rate limit exceeded. Please wait '' @ showInt w @ '' seconds.'')),
             c\<lparr>requestTimestamps := inWindow c e\<rparr>)"
    using checkRateLimit_refused [OF assms full] by blast
  let ?err = "newError (''Rate limit exceeded. Please wait '' @ showInt w @ '' seconds.'')"
  have "fst (checkRateLimit c (refreshed c e)) = Inl ?err"
    using refused by (simp add: checkRateLimit_refreshed)
  from requestTry_limited [OF this, of url cfg]
  have t: "requestTry c url cfg e = (Inl ?err, c\<lparr>requestTimestamps := inWindow c e\<rparr>, refreshed c e)"
    using refused by (simp add: checkRateLimit_refreshed)
  then have "fst (requestTry c url cfg e) = Inl ?err" by simp
  from request_failure [OF this]
  have r: "request c url cfg e =
     (Inl (raised (chainResult (errorInterceptors c) ?err)), c\<lparr>requestTimestamps := inWindow c e\<rparr>,
      (refreshed c e)\<lparr>events := events (refreshed c e) @
           calls ErrorInterceptor 0 (chainCalls (errorInterceptors c) ?err)\<rparr>)"
    using t by simp
  show "\<exists>oldest rest w. inWindow c e = oldest # rest \<and>
          w = - ((- (windowMs (rateLimitConfig c) - (now e - oldest))) div 1000) \<and> 0 < w \<and>
          checkRateLimit c e =
            (Inl (newError (''Rate limit exceeded. Please wait '' @ showInt w @ '' seconds.'')),
             c\<lparr>requestTimestamps := inWindow c e\<rparr>) \<and>
          fst (request c url cfg e) =
            Inl (raised (chainResult (errorInterceptors c)
              (newError (''Rate limit exceeded. Please wait '' @ showInt w @ '' seconds.''))))"
    using ne w refused r by auto
  show "requestTimestamps (fst (snd (request c url cfg e))) = inWindow c e"
    using r by simp
  show "fetchCount (snd (snd (request c url cfg e))) = fetchCount e"
    using r by (simp add: fetchCount_refreshed)
  show "delays (events (snd (snd (request c url cfg e)))) = delays (events e)"
    using r by (simp add: delays_append delays_calls refreshed_def logEvent_def)
next
  assume room: "int (length (inWindow c e)) < maxRequests (rateLimitConfig c)"
  from checkRateLimit_admitted [OF this]
  show adm: "checkRateLimit c e = (Inr (), c\<lparr>requestTimestamps := inWindow c e @ [now e]\<rparr>)" .
  then show "requestTimestamps (fst (snd (request c url cfg e))) = inWindow c e @ [now e]"
    using requestTry_client [of c url cfg e] by (simp add: request_client)
next
  assume h: "requestTimestamps c = [] \<and> int (length ts) = maxRequests (rateLimitConfig c) \<and>
     (\<forall>x \<in> set ts. \<forall>y \<in> set ts. y - x < windowMs (rateLimitConfig c))"
  then have run: "callsAt c e ts = (replicate (length ts) True, c\<lparr>requestTimestamps := ts\<rparr>)"
    using callsAt_admits [of c ts e] by simp
  let ?c = "c\<lparr>requestTimestamps := ts\<rparr>"
  show "callsAt c e ts = (replicate (length ts) True, c\<lparr>requestTimestamps := ts\<rparr>)"
    using run .
  show "\<forall>t. (\<forall>x \<in> set ts. t - x < windowMs (rateLimitConfig c)) \<longrightarrow>
            isl (fst (checkRateLimit (snd (callsAt c e ts)) (e\<lparr>now := t\<rparr>)))"
  proof (intro allI impI)
    fix t assume "\<forall>x \<in> set ts. t - x < windowMs (rateLimitConfig c)"
    then have "\<forall>x \<in> set ts. t - windowMs (rateLimitConfig c) < x" by (simp add: algebra_simps)
    then have "inWindow ?c (e\<lparr>now := t\<rparr>) = ts" by (simp add: inWindow_def)
    then have "maxRequests (rateLimitConfig ?c) \<le> int (length (inWindow ?c (e\<lparr>now := t\<rparr>)))"
      using h by simp
    from checkRateLimit_refused [OF _ this] assms
    show "isl (fst (checkRateLimit (snd (callsAt c e ts)) (e\<lparr>now := t\<rparr>)))"
      using run by auto
  qed
  show "\<forall>t. (\<forall>x \<in> set ts. x + windowMs (rateLimitConfig c) \<le> t) \<longrightarrow>
            fst (checkRateLimit (snd (callsAt c e ts)) (e\<lparr>now := t\<rparr>)) = Inr ()"
  proof (intro allI impI)
    fix t assume "\<forall>x \<in> set ts. x + windowMs (rateLimitConfig c) \<le> t"
    then have "\<forall>x \<in> set ts. \<not> t - windowMs (rateLimitConfig c) < x" by (simp add: algebra_simps not_less)
    then have "inWindow ?c (e\<lparr>now := t\<rparr>) = []" by (simp add: inWindow_def)
    then have "int (length (inWindow ?c (e\<lparr>now := t\<rparr>))) < maxRequests (rateLimitConfig ?c)"
      using assms by simp
    from checkRateLimit_admitted [OF this]
    show "fst (checkRateLimit (snd (callsAt c e ts)) (e\<lparr>now := t\<rparr>)) = Inr ()"
      using run by simp
  qed
qed

theorem rate_limit_window_witness:
  "fst (checkRateLimit (twoPerMinute\<lparr>requestTimestamps := [999000, 999500]\<rparr>) saved) =
     Inl (newError ''Rate limit exceeded. Please wait 59 seconds.'') \<and>
   requestTimestamps (fst (snd (request (twoPerMinute\<lparr>requestTimestamps := [999000, 999500]\<rparr>)
     ''/x'' noOptions saved))) = [999000, 999500] \<and>
   fetchCount (snd (snd (request (twoPerMinute\<lparr>requestTimestamps := [999000, 999500]\<rparr>)
     ''/x'' noOptions saved))) = 0 \<and>
   requestTimestamps (fst (snd (request twoPerMinute ''/x'' noOptions saved))) = [1000000] \<and>
   fst (callsAt twoPerMinute saved [1000000, 1030000]) = [True, True] \<and>
   isl (fst (checkRateLimit (snd (callsAt twoPerMinute saved [1000000, 1030000]))
     (saved\<lparr>now := 1059999\<rparr>))) \<and>
   fst (checkRateLimit (snd (callsAt twoPerMinute saved [1000000, 1030000]))
     (saved\<lparr>now := 1090000\<rparr>)) = Inr ()"
proof -
  let ?busy = "twoPerMinute\<lparr>requestTimestamps := [999000, 999500]\<rparr>"
  have q: "1 \<le> maxRequests (rateLimitConfig twoPerMinute)"
    "1 \<le> maxRequests (rateLimitConfig ?busy)"
    by (simp_all add: twoPerMinute_def constructor_def defaults_def)
  have w: "inWindow ?busy saved = [999000, 999500]" "inWindow twoPerMinute saved = []"
    "now saved = 1000000" "fetchCount saved = 0"
    "windowMs (rateLimitConfig ?busy) = 60000" "maxRequests (rateLimitConfig ?busy) = 2"
    "windowMs (rateLimitConfig twoPerMinute) = 60000" "maxRequests (rateLimitConfig twoPerMinute) = 2"
    "requestTimestamps twoPerMinute = []"
    by (simp_all add: inWindow_def twoPerMinute_def constructor_def defaults_def saved_def runtime_def)
  note law = rate_limit_window
  have a: "fst (checkRateLimit ?busy saved) =
       Inl (newError ''Rate limit exceeded. Please wait 59 seconds.'') \<and>
     requestTimestamps (fst (snd (request ?busy ''/x'' noOptions saved))) = [999000, 999500] \<and>
     fetchCount (snd (snd (request ?busy ''/x'' noOptions saved))) = 0"
    using law [OF q(2), of saved "''/x''" noOptions, THEN conjunct1] w
    by (auto simp: showInt_def digits.simps)
  have b: "requestTimestamps (fst (snd (request twoPerMinute ''/x'' noOptions saved))) = [1000000]"
    using law [OF q(1), of saved "''/x''" noOptions, THEN conjunct2, THEN conjunct1] w by simp
  have prem: "requestTimestamps twoPerMinute = [] \<and>
      int (length [1000000, 1030000 :: int]) = maxRequests (rateLimitConfig twoPerMinute) \<and>
      (\<forall>x \<in> set [1000000, 1030000]. \<forall>y \<in> set [1000000, 1030000].
         y - x < windowMs (rateLimitConfig twoPerMinute))"
    using w by simp
  note c = law [OF q(1), THEN conjunct2, THEN conjunct2, rule_format, OF prem, of saved]
  have c1: "fst (callsAt twoPerMinute saved [1000000, 1030000]) = [True, True]"
    using c [THEN conjunct1] by (simp del: callsAt.simps)
  have within: "\<forall>x \<in> set [1000000, 1030000]. 1059999 - x < windowMs (rateLimitConfig twoPerMinute)"
    and later: "\<forall>x \<in> set [1000000, 1030000]. x + windowMs (rateLimitConfig twoPerMinute) \<le> 1090000"
    using w by simp_all
  note d = c [THEN conjunct2, THEN conjunct1, THEN spec, THEN mp, OF within]
  note e = c [THEN conjunct2, THEN conjunct2, THEN spec, THEN mp, OF later]
  from a b c1 d e show ?thesis by (simp del: callsAt.simps)
qed

text \<open>
  C2 as stated fails for \<open>maxRequests = 0\<close>: there is no oldest timestamp to count from,
  and the wait time in the error is \<^verbatim>\<open>NaN\<close>, not a positive number.
\<close>

theorem zero_quota_waits_NaN:
  "fst (checkRateLimit noQuota saved) =
     Inl (newError ''Rate limit exceeded. Please wait NaN seconds.'') \<and>
   fst (request noQuota ''/x'' noOptions saved) =
     Inl (newError ''Rate limit exceeded. Please wait NaN seconds.'')"
  by (simp add: noQuota_def saved_def example_defs request_defs chain.simps newError_def)

subsection \<open>Errors and the error interceptors\<close>

text \<open>
  C6. Whatever the \<^verbatim>\<open>try\<close> block of \<^verbatim>\<open>request\<close> raises (the rate-limit error among them,
  and the error the retry loop ends with) goes through the error interceptors, which are
  called in positions \<open>0, 1, ...\<close> one after the other, a newly registered one last and on
  the error the earlier ones returned; the call then raises what the chain returned, or what
  an interceptor threw. A call never returns normally after such an error: a success
  envelope is either an entry of the cache with \<open>fromCache\<close> set, or the result of the retry
  loop. The result type of \<open>request\<close> has no third alternative, and the verb wrappers are
  calls of \<open>request\<close>.
\<close>

theorem errors_pass_through_error_interceptors:
  "(fst (requestTry c url cfg e) = Inl err \<longrightarrow>
      fst (request c url cfg e) = Inl (raised (chainResult (errorInterceptors c) err)) \<and>
      events (snd (snd (request c url cfg e))) =
        events (snd (snd (requestTry c url cfg e))) @
          map ErrorInterceptor [0..<chainCalls (errorInterceptors c) err]) \<and>
   (fst (checkRateLimit c e) = Inl err \<longrightarrow> fst (requestTry c url cfg e) = Inl err) \<and>
   (fst (request c url cfg e) = Inr r \<longrightarrow>
      fst (requestTry c url cfg e) = Inr r \<and>
      ((\<exists>v. cacheable cfg \<and> map_of (cache c) (generateCacheKey (resolve c url) cfg) = Some v \<and>
            r = v\<lparr>fromCache := True\<rparr>) \<or>
       fst (retryRequest (snd (checkRateLimit c e)) (resolve c url) cfg 0 (refreshed c e)) = Inr r)) \<and>
   chainResult (errorInterceptors (addErrorInterceptor g c)) err =
     (case chainResult (errorInterceptors c) err of Inl thrown \<Rightarrow> Inl thrown | Inr y \<Rightarrow> g y) \<and>
   chainCalls (errorInterceptors c) err \<le> length (errorInterceptors c) \<and>
   get c url cfg e = request c url (cfg\<lparr>cfg_method := Some ''GET''\<rparr>) e \<and>
   post c url d cfg e =
     request c url (cfg\<lparr>cfg_method := Some ''POST'', cfg_data := d, cfg_cache := Some False\<rparr>) e \<and>
   put c url d cfg e =
     request c url (cfg\<lparr>cfg_method := Some ''PUT'', cfg_data := d, cfg_cache := Some False\<rparr>) e \<and>
   patch c url d cfg e =
     request c url (cfg\<lparr>cfg_method := Some ''PATCH'', cfg_data := d, cfg_cache := Some False\<rparr>) e \<and>
   delete c url cfg e =
     request c url (cfg\<lparr>cfg_method := Some ''DELETE'', cfg_cache := Some False\<rparr>) e"
proof (intro conjI impI)
  assume failed: "fst (requestTry c url cfg e) = Inl err"
  from request_failure [OF this]
  show "fst (request c url cfg e) = Inl (raised (chainResult (errorInterceptors c) err))"
    and "events (snd (snd (request c url cfg e))) =
        events (snd (snd (requestTry c url cfg e))) @
          map ErrorInterceptor [0..<chainCalls (errorInterceptors c) err]"
    by (simp_all add: calls_def)
next
  assume "fst (checkRateLimit c e) = Inl err"
  then have "fst (checkRateLimit c (refreshed c e)) = Inl err"
    by (simp add: checkRateLimit_refreshed)
  from requestTry_limited [OF this] show "fst (requestTry c url cfg e) = Inl err" by simp
next
  assume "fst (request c url cfg e) = Inr r"
  then show ok: "fst (requestTry c url cfg e) = Inr r" by (simp add: request_Inr)
  from requestTry_Inr [OF ok]
  show "(\<exists>v. cacheable cfg \<and> map_of (cache c) (generateCacheKey (resolve c url) cfg) = Some v \<and>
            r = v\<lparr>fromCache := True\<rparr>) \<or>
       fst (retryRequest (snd (checkRateLimit c e)) (resolve c url) cfg 0 (refreshed c e)) = Inr r" .
next
  show "chainResult (errorInterceptors (addErrorInterceptor g c)) err =
     (case chainResult (errorInterceptors c) err of Inl thrown \<Rightarrow> Inl thrown | Inr y \<Rightarrow> g y)"
    by (simp add: addErrorInterceptor_def chainResult_snoc)
  show "chainCalls (errorInterceptors c) err \<le> length (errorInterceptors c)"
    by (rule chainCalls_le)
qed (simp_all add: get_def post_def put_def patch_def delete_def)

theorem errors_pass_through_error_interceptors_witness:
  "fst (request (addErrorInterceptor tagError (constructor defaults)) ''/x'' noOptions missing) =
     Inl (httpErrorOf 404 ''[api] HTTP Error: 404'' ''no such item'') \<and>
   events (snd (snd (request (addErrorInterceptor tagError (constructor defaults)) ''/x'' noOptions missing))) =
     [Fetch plainGet, ErrorInterceptor 0] \<and>
   fst (requestTry (twoPerMinute\<lparr>requestTimestamps := [999000, 999500]\<rparr>) ''/x'' noOptions saved) =
     Inl (newError ''Rate limit exceeded. Please wait 59 seconds.'') \<and>
   fst (requestTry (addErrorInterceptor tagError (constructor defaults)) ''/x'' noOptions saved) =
     Inr savedEnvelope"
proof -
  let ?c = "addErrorInterceptor tagError (constructor defaults)"
  let ?busy = "twoPerMinute\<lparr>requestTimestamps := [999000, 999500]\<rparr>"
  note law = errors_pass_through_error_interceptors
  have t: "fst (requestTry ?c ''/x'' noOptions missing) =
      Inl (httpErrorOf 404 ''HTTP Error: 404'' ''no such item'')"
    and ev: "events (snd (snd (requestTry ?c ''/x'' noOptions missing))) = [Fetch plainGet]"
    by (simp_all add: missing_def httpErrorOf_def plainGet_def addErrorInterceptor_def
        example_defs attempt_defs request_defs digits.simps)
  have 1: "fst (request ?c ''/x'' noOptions missing) =
      Inl (httpErrorOf 404 ''[api] HTTP Error: 404'' ''no such item'') \<and>
    events (snd (snd (request ?c ''/x'' noOptions missing))) = [Fetch plainGet, ErrorInterceptor 0]"
    using law [THEN conjunct1, rule_format, OF t] ev
    by (simp add: addErrorInterceptor_def constructor_def tagError_def raised_def httpErrorOf_def)
  have rl: "fst (checkRateLimit ?busy saved) =
      Inl (newError ''Rate limit exceeded. Please wait 59 seconds.'')"
    by (simp add: twoPerMinute_def saved_def example_defs request_defs digits.simps)
  note 2 = law [THEN conjunct2, THEN conjunct1, rule_format, OF rl]
  have ok: "fst (request ?c ''/x'' noOptions saved) = Inr savedEnvelope"
    by (simp add: saved_def savedEnvelope_def addErrorInterceptor_def
        example_defs attempt_defs request_defs)
  note 3 = law [THEN conjunct2, THEN conjunct2, THEN conjunct1, rule_format, OF ok, THEN conjunct1]
  from 1 2 3 show ?thesis by simp
qed

subsection \<open>Clearing the cache\<close>















subsection \<open>Token refresh\<close>

text \<open>
  C10. Start from a freshly constructed client (with any configuration, a refresh token in
  it included) and perform any sequence of calls and waiting in which \<^verbatim>\<open>setRefreshToken\<close>
  does not occur, \<^verbatim>\<open>setAuthToken\<close> allowed: no expiry instant is ever recorded and the
  refresh hook is never called. More generally a request on a client without an expiry
  instant does not call the hook. The default hook returns the client as it is and prints
  one warning.
\<close>

theorem refresh_hook_needs_expiry:
  "(list_all (\<lambda>x. \<not> setsRefreshToken x) xs \<longrightarrow>
      tokenExpiryTime (fst (run xs (constructor cc) e0)) = None \<and>
      warnings (snd (run xs (constructor cc) e0)) = warnings e0) \<and>
   (tokenExpiryTime c = None \<longrightarrow>
      warnings (snd (snd (request c url cfg e))) = warnings e) \<and>
   refreshAuthToken c e = (c, logEvent Warn e) \<and>
   warnings (logEvent Warn e) = Suc (warnings e)"
proof (intro conjI impI)
  assume "list_all (\<lambda>x. \<not> setsRefreshToken x) xs"
  from run_without_refresh [OF this, of "constructor cc" e0]
  show "tokenExpiryTime (fst (run xs (constructor cc) e0)) = None"
    and "warnings (snd (run xs (constructor cc) e0)) = warnings e0"
    by (simp_all add: constructor_def)
next
  assume "tokenExpiryTime c = None"
  then show "warnings (snd (snd (request c url cfg e))) = warnings e"
    by (rule request_warnings)
qed (simp_all add: refreshAuthToken_def warnings_def logEvent_def)

theorem refresh_hook_needs_expiry_witness:
  "warnings (snd (run [SetAuthToken ''secret'' None, Get ''/x'' noOptions, Wait 4000000,
       Get ''/x'' noOptions]
     (constructor (defaults\<lparr>cc_refreshToken := Some ''refresh''\<rparr>)) saved)) = 0 \<and>
   warnings (snd (snd (request (setAuthToken ''secret'' None (constructor defaults))
     ''/x'' noOptions saved))) = 0 \<and>
   warnings (snd (snd (request
     (setRefreshToken ''refresh'' (Some 30000) (constructor defaults) saved) ''/x'' noOptions saved))) = 1"
proof -
  let ?xs = "[SetAuthToken ''secret'' None, Get ''/x'' noOptions, Wait 4000000,
       Get ''/x'' noOptions]"
  have none: "list_all (\<lambda>x. \<not> setsRefreshToken x) ?xs" by simp
  have fresh: "tokenExpiryTime (setAuthToken ''secret'' None (constructor defaults)) = None"
    by (simp add: setAuthToken_def constructor_def)
  have w0: "warnings saved = 0" by (simp add: warnings_def saved_def runtime_def)
  note law = refresh_hook_needs_expiry
  note 1 = law [THEN conjunct1, rule_format, OF none, THEN conjunct2,
      of "defaults\<lparr>cc_refreshToken := Some ''refresh''\<rparr>" saved]
  note 2 = law [THEN conjunct2, THEN conjunct1, rule_format, OF fresh, of "''/x''" noOptions saved]
  have 3: "warnings (snd (snd (request
     (setRefreshToken ''refresh'' (Some 30000) (constructor defaults) saved) ''/x'' noOptions saved))) = 1"
    by (simp add: warnings_def setRefreshToken_def saved_def example_defs attempt_defs request_defs)
  from 1 2 3 w0 show ?thesis by (simp del: run.simps)
qed

subsection \<open>Cache hits\<close>




end
